theory Spec2Isabelle
  imports Complex_Main "HOL-Library.Char_ord" "HOL-Library.List_Lexorder"
begin

section \<open>Data model\<close>

subsection \<open>Floating-point values\<close>

text \<open>
  A C++ \<open>double\<close> is a finite value, one of the two infinities, or a NaN. The finite
  values are embedded in the reals. The driver only classifies doubles (\<open>std::isfinite\<close>),
  takes magnitudes (\<open>std::fabs\<close>, \<open>std::abs\<close>), compares them (\<open>>\<close>) and, in
  \<open>reachedGoal\<close>, subtracts two of them. Classification, magnitude and comparison are exact
  on doubles; the subtraction is taken on the reals (its rounding is not modelled).
\<close>

datatype double = Fin real | PosInf | NegInf | NaN

fun isfinite :: "double \<Rightarrow> bool" where
  "isfinite (Fin r) = True"
| "isfinite PosInf = False"
| "isfinite NegInf = False"
| "isfinite NaN = False"

fun fabs :: "double \<Rightarrow> double" where
  "fabs (Fin r) = Fin \<bar>r\<bar>"
| "fabs PosInf = PosInf"
| "fabs NegInf = PosInf"
| "fabs NaN = NaN"

text \<open>\<open>dgreater a b\<close> is the C++ comparison \<open>a > b\<close>: false as soon as one side is a NaN.\<close>

fun dgreater :: "double \<Rightarrow> double \<Rightarrow> bool" where
  "dgreater (Fin a) (Fin b) = (b < a)"
| "dgreater (Fin a) NegInf = True"
| "dgreater (Fin a) PosInf = False"
| "dgreater (Fin a) NaN = False"
| "dgreater PosInf (Fin b) = True"
| "dgreater PosInf NegInf = True"
| "dgreater PosInf PosInf = False"
| "dgreater PosInf NaN = False"
| "dgreater NegInf b = False"
| "dgreater NaN b = False"

text \<open>\<open>dle a b\<close> is the C++ comparison \<open>a <= b\<close>, false as well when a NaN is involved.\<close>

fun dle :: "double \<Rightarrow> double \<Rightarrow> bool" where
  "dle (Fin a) (Fin b) = (a \<le> b)"
| "dle (Fin a) PosInf = True"
| "dle (Fin a) NegInf = False"
| "dle (Fin a) NaN = False"
| "dle NegInf (Fin b) = True"
| "dle NegInf NegInf = True"
| "dle NegInf PosInf = True"
| "dle NegInf NaN = False"
| "dle PosInf PosInf = True"
| "dle PosInf (Fin b) = False"
| "dle PosInf NegInf = False"
| "dle PosInf NaN = False"
| "dle NaN b = False"

text \<open>\<open>dsub a b\<close> is \<open>a - b\<close>.\<close>

fun dsub :: "double \<Rightarrow> double \<Rightarrow> double" where
  "dsub (Fin a) (Fin b) = Fin (a - b)"
| "dsub (Fin a) PosInf = NegInf"
| "dsub (Fin a) NegInf = PosInf"
| "dsub PosInf (Fin b) = PosInf"
| "dsub PosInf NegInf = PosInf"
| "dsub PosInf PosInf = NaN"
| "dsub NegInf (Fin b) = NegInf"
| "dsub NegInf PosInf = NegInf"
| "dsub NegInf NegInf = NaN"
| "dsub NaN b = NaN"
| "dsub a NaN = NaN"

subsection \<open>Messages of the action interface\<close>

text \<open>
  \<open>ros::Duration\<close> holds two signed 32-bit fields. They are integers here; every 32-bit
  value is one, and the conversion below is done by the source in 64-bit arithmetic, where
  a product of a 32-bit value and \<open>10^9\<close> cannot overflow.
\<close>

record Duration =
  sec :: int
  nsec :: int

text \<open>The duration in nanoseconds (\<open>ros::Duration::toNSec\<close>).\<close>

definition toNSec :: "Duration \<Rightarrow> int" where
  "toNSec dur = sec dur * 1000000000 + nsec dur"

text \<open>
  A point of the goal's trajectory (\<open>trajectory_msgs::JointTrajectoryPoint\<close>) and the goal's
  trajectory. The fields are prefixed, since the follower's \<open>TrajectoryPoint\<close> below has
  fields of the same names.
\<close>

record JointTrajectoryPoint =
  point_positions :: "double list"
  point_velocities :: "double list"
  point_time_from_start :: Duration

record JointTrajectory =
  traj_joint_names :: "string list"
  traj_points :: "JointTrajectoryPoint list"

text \<open>A goal handle: the goal it carries and an identity to tell the handles apart.\<close>

record GoalHandle =
  gh_id :: nat
  getGoal :: JointTrajectory

record Result =
  error_code :: int
  error_string :: string

text \<open>The named result codes of \<open>control_msgs::FollowJointTrajectoryResult\<close>.\<close>

definition SUCCESSFUL :: int where
  "SUCCESSFUL = 0"

definition INVALID_GOAL :: int where
  "INVALID_GOAL = - 1"

definition INVALID_JOINTS :: int where
  "INVALID_JOINTS = - 2"

text \<open>
  The calls the server makes on goal handles, in the order it makes them. They are the
  server's only output towards the action client.
\<close>

datatype gh_call =
    setRejected GoalHandle Result
  | setAccepted GoalHandle
  | setAborted GoalHandle Result
  | setSucceeded GoalHandle Result
  | setCanceled GoalHandle Result

subsection \<open>The follower's trajectory points (trajectory\_follower.h)\<close>

text \<open>
  \<open>std::array<double, 6>\<close> is a list of length 6; \<open>time_from_start\<close> counts
  microseconds.
\<close>

record TrajectoryPoint =
  positions :: "double list"
  velocities :: "double list"
  time_from_start :: int

subsection \<open>The action server\<close>

text \<open>
  Modelled from the spec: the enumeration \<open>RobotState\<close> is declared in a header that is
  not among the sources; section 3 of the specification lists its values. \<open>Undefined\<close>
  is what the \<open>default\<close> branch of \<open>validateState\<close> answers to.
\<close>

datatype RobotState = Running | ProtectiveStopped | EmergencyStopped | Error | Undefined

text \<open>
  The fields of \<open>ActionServer\<close> (without the trailing underscore of the source).
  \<open>tj_mutex\<close> tells whether the execution lock is held; the handlers below run on the
  admission thread, so a lock they find held is held by the execution thread.
  \<open>calls\<close> records the calls made on goal handles so far.
\<close>

record ActionServer =
  joint_names :: "string list"
  max_velocity :: double
  interrupt_traj :: bool
  has_goal :: bool
  running :: bool
  state :: RobotState
  use_smooth_trajectory :: bool
  kill_on_hang :: bool
  curr_gh :: GoalHandle
  q_actual :: "double list"
  qd_actual :: "double list"
  tj_mutex :: bool
  calls :: "gh_call list"

text \<open>
  \<open>std::set<std::string>\<close> built from a range: the distinct elements in ascending
  (lexicographic, bytewise) order. Two such sets are equal when these lists are.
\<close>

definition std_set :: "string list \<Rightarrow> string list" where
  "std_set xs = sort (remdups xs)"

text \<open>\<open>joint_set_\<close> is built once, in the constructor, from the joint names.\<close>

definition joint_set :: "ActionServer \<Rightarrow> string list" where
  "joint_set s = std_set (joint_names s)"

section \<open>Goal validation (action\_server.cpp, validate)\<close>

definition validateState :: "ActionServer \<Rightarrow> Result \<Rightarrow> bool \<times> Result" where
  "validateState s res =
     (case state s of
        EmergencyStopped \<Rightarrow> (False, res\<lparr>error_string := ''Robot is emergency stopped''\<rparr>)
      | ProtectiveStopped \<Rightarrow> (False, res\<lparr>error_string := ''Robot is protective stopped''\<rparr>)
      | Error \<Rightarrow> (False, res\<lparr>error_string := ''Robot is not ready, check robot_mode''\<rparr>)
      | Running \<Rightarrow> (True, res)
      | Undefined \<Rightarrow> (False, res\<lparr>error_string := ''Undefined state''\<rparr>))"

text \<open>The text appended by the two \<open>for_each\<close> loops: every name followed by a comma.\<close>

definition joint_listing :: "string list \<Rightarrow> string" where
  "joint_listing js = concat (map (\<lambda>joint. joint @ '', '') js)"

definition validateJoints :: "ActionServer \<Rightarrow> GoalHandle \<Rightarrow> Result \<Rightarrow> bool \<times> Result" where
  "validateJoints s gh res =
     (let goal_joints = std_set (traj_joint_names (getGoal gh)) in
      if goal_joints = joint_set s then (True, res)
      else (False, res\<lparr>error_code := INVALID_JOINTS,
                        error_string := ''Invalid joint names for goal'' @ [CHR 0x0A]
                          @ ''Expected: '' @ joint_listing goal_joints
                          @ [CHR 0x0A] @ ''Found: '' @ joint_listing (joint_set s)\<rparr>))"

text \<open>
  The two inner loops of \<open>validateTrajectory\<close>. \<open>to_string\<close> stands for
  \<open>std::to_string\<close> on doubles, whose decimal formatting is not modelled.
\<close>

fun check_velocities :: "(double \<Rightarrow> string) \<Rightarrow> double \<Rightarrow> Result \<Rightarrow> double list \<Rightarrow> bool \<times> Result" where
  "check_velocities to_string mv res [] = (True, res)"
| "check_velocities to_string mv res (velocity # vs) =
     (if \<not> isfinite velocity
      then (False, res\<lparr>error_string := ''Received a goal with infinities or NaNs in velocity''\<rparr>)
      else if dgreater (fabs velocity) mv
      then (False, res\<lparr>error_string :=
              ''Received a goal with velocities that are higher than max_velocity_ '' @ to_string mv\<rparr>)
      else check_velocities to_string mv res vs)"

fun check_positions :: "Result \<Rightarrow> double list \<Rightarrow> bool \<times> Result" where
  "check_positions res [] = (True, res)"
| "check_positions res (position # ps) =
     (if \<not> isfinite position
      then (False, res\<lparr>error_string := ''Received a goal with infinities or NaNs in positions''\<rparr>)
      else check_positions res ps)"

text \<open>The loop over the points.\<close>

fun check_points :: "(double \<Rightarrow> string) \<Rightarrow> ActionServer \<Rightarrow> Result \<Rightarrow> JointTrajectoryPoint list \<Rightarrow> bool \<times> Result" where
  "check_points to_string s res [] = (True, res)"
| "check_points to_string s res (point # pts) =
     (if length (point_velocities point) \<noteq> length (joint_names s)
      then (False, res\<lparr>error_code := INVALID_GOAL,
                       error_string := ''Received a goal with an invalid number of velocities''\<rparr>)
      else if length (point_positions point) \<noteq> length (joint_names s)
      then (False, res\<lparr>error_code := INVALID_GOAL,
                       error_string := ''Received a goal with an invalid number of positions''\<rparr>)
      else (case check_velocities to_string (max_velocity s) res (point_velocities point) of
              (False, res') \<Rightarrow> (False, res')
            | (True, res') \<Rightarrow>
                (case check_positions res' (point_positions point) of
                   (False, res'') \<Rightarrow> (False, res'')
                 | (True, res'') \<Rightarrow> check_points to_string s res'' pts)))"

text \<open>What one pass of that loop requires of a point.\<close>

definition point_ok :: "ActionServer \<Rightarrow> JointTrajectoryPoint \<Rightarrow> bool" where
  "point_ok s p =
     (length (point_velocities p) = length (joint_names s)
      \<and> length (point_positions p) = length (joint_names s)
      \<and> (\<forall>v\<in>set (point_velocities p). isfinite v \<and> \<not> dgreater (fabs v) (max_velocity s))
      \<and> (\<forall>x\<in>set (point_positions p). isfinite x))"

definition validateTrajectory :: "(double \<Rightarrow> string) \<Rightarrow> ActionServer \<Rightarrow> GoalHandle \<Rightarrow> Result \<Rightarrow> bool \<times> Result" where
  "validateTrajectory to_string s gh res =
     (let res1 = res\<lparr>error_code := INVALID_GOAL\<rparr> in
      if length (traj_points (getGoal gh)) < 1 then (False, res1)
      else check_points to_string s res1 (traj_points (getGoal gh)))"

text \<open>\<open>validateState && validateJoints && validateTrajectory\<close>, evaluated left to right.\<close>

definition validate :: "(double \<Rightarrow> string) \<Rightarrow> ActionServer \<Rightarrow> GoalHandle \<Rightarrow> Result \<Rightarrow> bool \<times> Result" where
  "validate to_string s gh res =
     (case validateState s res of
        (False, res1) \<Rightarrow> (False, res1)
      | (True, res1) \<Rightarrow>
          (case validateJoints s gh res1 of
             (False, res2) \<Rightarrow> (False, res2)
           | (True, res2) \<Rightarrow> validateTrajectory to_string s gh res2))"

section \<open>Joint reordering and translation (reorderMap, trajectoryThread)\<close>

text \<open>
  \<open>std::chrono::duration_cast\<close> to microseconds of \<open>seconds(sec) + nanoseconds(nsec)\<close>:
  an integer division that truncates towards zero.
\<close>

definition convert :: "Duration \<Rightarrow> int" where
  "convert dur =
     (let ns = sec dur * 1000000000 + nsec dur in
      if 0 \<le> ns then ns div 1000 else - ((- ns) div 1000))"

text \<open>
  The inner loop of \<open>reorderMap\<close>: \<open>j\<close> counts the goal's joint names passed before
  the first one equal to \<open>aj\<close>; with no equal name it ends as the length of the list.
\<close>

fun name_search :: "string \<Rightarrow> string list \<Rightarrow> nat \<Rightarrow> nat" where
  "name_search aj [] j = j"
| "name_search aj (gj # gjs) j = (if aj = gj then j else name_search aj gjs (Suc j))"

definition reorderMap :: "ActionServer \<Rightarrow> string list \<Rightarrow> nat list" where
  "reorderMap s goal_joints = map (\<lambda>aj. name_search aj goal_joints 0) (joint_names s)"

text \<open>
  What C++ leaves undefined is a fault of the model: an access past the end of an array or
  a vector, and the copy of an array element that was never written.
\<close>

datatype fault = OutOfBounds | Indeterminate

text \<open>
  The loop \<open>for (i = 0; i < 6; i++) { idx = mapping[i]; pos[idx] = point.positions[i];
  vel[idx] = point.velocities[i]; }\<close> over the indices still to visit. The arrays
  \<open>pos\<close> and \<open>vel\<close> start uninitialised (\<open>None\<close> in every place).
\<close>

fun assign_joints :: "nat list \<Rightarrow> JointTrajectoryPoint \<Rightarrow> nat list
    \<Rightarrow> double option list \<Rightarrow> double option list
    \<Rightarrow> fault + (double option list \<times> double option list)" where
  "assign_joints mapping point [] pos vel = Inr (pos, vel)"
| "assign_joints mapping point (i # rest) pos vel =
     (if i < length mapping \<and> mapping ! i < length pos \<and> mapping ! i < length vel
         \<and> i < length (point_positions point) \<and> i < length (point_velocities point)
      then assign_joints mapping point rest
             (pos[mapping ! i := Some (point_positions point ! i)])
             (vel[mapping ! i := Some (point_velocities point ! i)])
      else Inl OutOfBounds)"

fun initialised :: "double option list \<Rightarrow> bool" where
  "initialised [] = True"
| "initialised (None # xs) = False"
| "initialised (Some x # xs) = initialised xs"

definition translate_point :: "nat list \<Rightarrow> JointTrajectoryPoint \<Rightarrow> fault + TrajectoryPoint" where
  "translate_point mapping point =
     (case assign_joints mapping point [0, 1, 2, 3, 4, 5] (replicate 6 None) (replicate 6 None) of
        Inl e \<Rightarrow> Inl e
      | Inr (pos, vel) \<Rightarrow>
          if initialised pos \<and> initialised vel
          then Inr \<lparr>positions = map the pos, velocities = map the vel,
                    time_from_start = convert (point_time_from_start point)\<rparr>
          else Inl Indeterminate)"

fun translate_points :: "nat list \<Rightarrow> JointTrajectoryPoint list \<Rightarrow> fault + TrajectoryPoint list" where
  "translate_points mapping [] = Inr []"
| "translate_points mapping (point # pts) =
     (case translate_point mapping point of
        Inl e \<Rightarrow> Inl e
      | Inr tp \<Rightarrow>
          (case translate_points mapping pts of
             Inl e \<Rightarrow> Inl e
           | Inr tps \<Rightarrow> Inr (tp # tps)))"

text \<open>
  The synthetic first point: pushed when the first point's converted time is positive.
\<close>

definition t0_points :: "ActionServer \<Rightarrow> JointTrajectoryPoint \<Rightarrow> TrajectoryPoint list" where
  "t0_points s fp =
     (if convert (point_time_from_start fp) > 0
      then [\<lparr>positions = q_actual s, velocities = qd_actual s, time_from_start = 0\<rparr>]
      else [])"

text \<open>
  The translation done by \<open>trajectoryThread\<close> between accepting the goal and calling
  the follower. \<open>points[0]\<close> of an empty vector is out of bounds.
\<close>

definition translate_trajectory :: "ActionServer \<Rightarrow> JointTrajectory \<Rightarrow> fault + TrajectoryPoint list" where
  "translate_trajectory s goal =
     (case traj_points goal of
        [] \<Rightarrow> Inl OutOfBounds
      | fp # _ \<Rightarrow>
          (case translate_points (reorderMap s (traj_joint_names goal)) (traj_points goal) of
             Inl e \<Rightarrow> Inl e
           | Inr tps \<Rightarrow> Inr (t0_points s fp @ tps)))"

section \<open>Admission (onGoal, try\_execute)\<close>

text \<open>
  \<open>try_execute\<close> runs on the admission thread. A failed \<open>try_lock\<close> means the execution
  thread holds the lock: the flag is raised, the current goal handle is told it is aborted,
  and \<open>tj_mutex_.lock()\<close> waits. What the execution thread does to the server's fields
  while this thread waits, up to its release of the lock, is the parameter \<open>exec\<close>. The
  result passed in is the one of \<open>onGoal\<close>, as \<open>validate\<close> left it.
\<close>

definition try_execute :: "(ActionServer \<Rightarrow> ActionServer) \<Rightarrow> ActionServer \<Rightarrow> GoalHandle \<Rightarrow> Result
    \<Rightarrow> bool \<times> Result \<times> ActionServer" where
  "try_execute exec s gh res =
     (if \<not> running s then (False, res\<lparr>error_string := ''Internal error''\<rparr>, s)
      else
        let (res1, s1) =
              (if tj_mutex s
               then let s' = s\<lparr>interrupt_traj := True\<rparr>;
                        res' = res\<lparr>error_string := ''Received another trajectory''\<rparr>;
                        s'' = s'\<lparr>calls := calls s' @ [setAborted (curr_gh s') res']\<rparr>
                    in (res', (exec s'')\<lparr>tj_mutex := True\<rparr>)
               else (res, s\<lparr>tj_mutex := True\<rparr>))
        in (True, res1,
            s1\<lparr>curr_gh := gh, interrupt_traj := False, has_goal := True, tj_mutex := False\<rparr>))"

definition onGoal :: "(double \<Rightarrow> string) \<Rightarrow> (ActionServer \<Rightarrow> ActionServer) \<Rightarrow> ActionServer \<Rightarrow> GoalHandle
    \<Rightarrow> ActionServer" where
  "onGoal to_string exec s gh =
     (let res = \<lparr>error_code = - 100, error_string = []\<rparr> in
      case validate to_string s gh res of
        (False, res1) \<Rightarrow> s\<lparr>calls := calls s @ [setRejected gh res1]\<rparr>
      | (True, res1) \<Rightarrow>
          (case try_execute exec s gh res1 of
             (False, res2, s') \<Rightarrow> s'\<lparr>calls := calls s' @ [setRejected gh res2]\<rparr>
           | (True, res2, s') \<Rightarrow> s'))"

section \<open>Safety-state notifications and cancellation\<close>

text \<open>
  \<open>onRobotStateChange\<close>: a successful \<open>try_lock\<close> is undone at once; a failed one is
  followed by the flag, the wait for the lock (\<open>exec\<close>, as above) and the abort of the
  current goal handle, after which the lock guard releases the lock.
\<close>

definition onRobotStateChange :: "(ActionServer \<Rightarrow> ActionServer) \<Rightarrow> ActionServer \<Rightarrow> RobotState
    \<Rightarrow> ActionServer" where
  "onRobotStateChange exec s0 st =
     (let s = s0\<lparr>state := st\<rparr> in
      if st = Running then s
      else if interrupt_traj s \<or> \<not> has_goal s then s
      else if \<not> tj_mutex s then s
      else
        let s1 = exec (s\<lparr>interrupt_traj := True\<rparr>);
            res = \<lparr>error_code = - 100, error_string = ''Robot safety stop''\<rparr>
        in s1\<lparr>calls := calls s1 @ [setAborted (curr_gh s1) res], tj_mutex := False\<rparr>)"

definition onCancel :: "(ActionServer \<Rightarrow> ActionServer) \<Rightarrow> ActionServer \<Rightarrow> GoalHandle \<Rightarrow> ActionServer" where
  "onCancel exec s gh =
     (let s1 = (if tj_mutex s then exec (s\<lparr>interrupt_traj := True\<rparr>) else s\<lparr>interrupt_traj := True\<rparr>);
          res = \<lparr>error_code = - 100, error_string = ''Goal cancelled by client''\<rparr>
      in s1\<lparr>calls := calls s1 @ [setCanceled gh res], tj_mutex := False\<rparr>)"

section \<open>The execution thread (trajectoryThread)\<close>

text \<open>
  \<open>inMotion\<close> and \<open>reachedGoal\<close>, on the telemetry they read. The two arrays of
  \<open>reachedGoal\<close> have the same length.
\<close>

definition inMotion :: "double list \<Rightarrow> bool" where
  "inMotion qd = list_ex (\<lambda>joint_speed. dgreater (fabs joint_speed) (Fin (1 / 100))) qd"

definition reachedGoal :: "double list \<Rightarrow> TrajectoryPoint \<Rightarrow> bool" where
  "reachedGoal q goal_point =
     list_all (\<lambda>(a, g). \<not> dgreater (fabs (dsub a g)) (Fin (25 / 10000))) (zip q (positions goal_point))"

text \<open>
  What one pass of the polling loop observes: the clock, the telemetry written by
  \<open>updateState\<close> and the interrupt flag, all of which other threads change. A pass is
  taken to see one value of each. The clock counts seconds, as a real number.
\<close>

record tick =
  tick_now :: real
  tick_q :: "double list"
  tick_qd :: "double list"
  tick_interrupt :: bool

datatype poll_end = Reached | Interrupted | TimedOut

text \<open>
  The loop \<open>while (now < timeout || inMotion()) { ... usleep(1000); }\<close> over the passes
  observed. \<open>None\<close>: the loop is still running after the last of them. Leaving by the
  loop condition is the only way that keeps \<open>timed_out\<close> set.
\<close>

fun poll :: "real \<Rightarrow> TrajectoryPoint \<Rightarrow> tick list \<Rightarrow> poll_end option" where
  "poll timeout goal_point [] = None"
| "poll timeout goal_point (x # xs) =
     (if tick_now x < timeout \<or> inMotion (tick_qd x)
      then if reachedGoal (tick_q x) goal_point \<and> \<not> inMotion (tick_qd x) then Some Reached
           else if tick_interrupt x then Some Interrupted
           else poll timeout goal_point xs
      else Some TimedOut)"

text \<open>
  What the execution thread meets while it runs one goal: the answer of the follower, the
  interrupt flag as read after the follower's return (timed mode), the clock when the
  timeout is computed, and the passes of the polling loop.
\<close>

record exec_env =
  follower_ok :: bool
  interrupted :: bool
  start_time :: real
  ticks :: "tick list"

text \<open>
  How the thread's pass for one goal ends: by a fault of the translation, by \<open>exit(0)\<close>,
  still in the polling loop, or by releasing the lock.
\<close>

datatype thread_end = Faulted fault | Exited ActionServer | Polling ActionServer | Unlocked ActionServer

definition add_call :: "gh_call \<Rightarrow> ActionServer \<Rightarrow> ActionServer" where
  "add_call c s = s\<lparr>calls := calls s @ [c]\<rparr>"

definition hang_result :: "Result \<Rightarrow> Result" where
  "hang_result res = res\<lparr>error_code := - 100, error_string := ''Robot has hung. ''\<rparr>"

text \<open>
  The smooth branch after the follower's call: the polling loop, the abort after a timeout,
  \<open>follower_.stop()\<close>, and the release of the lock.
\<close>

definition smooth_completion :: "real \<Rightarrow> TrajectoryPoint \<Rightarrow> tick list \<Rightarrow> Result \<Rightarrow> ActionServer \<Rightarrow> thread_end" where
  "smooth_completion timeout goal_point obs res s =
     (case poll timeout goal_point obs of
        None \<Rightarrow> Polling s
      | Some Reached \<Rightarrow>
          Unlocked ((add_call (setSucceeded (curr_gh s) (res\<lparr>error_code := SUCCESSFUL\<rparr>)) s)
                      \<lparr>has_goal := False, tj_mutex := False\<rparr>)
      | Some Interrupted \<Rightarrow> Unlocked (s\<lparr>has_goal := False, tj_mutex := False\<rparr>)
      | Some TimedOut \<Rightarrow>
          Unlocked ((add_call (setAborted (curr_gh s)
                       (res\<lparr>error_code := - 100,
                            error_string := ''Robot motion timed out or failed to reach goal.''\<rparr>)) s)
                      \<lparr>has_goal := False, tj_mutex := False\<rparr>))"

text \<open>
  The body of the thread's loop from the moment \<open>wait_for\<close> has returned with the lock held
  and a goal present. \<open>t\<close> is the last point's time in seconds; the result \<open>res\<close> starts
  as a default-constructed message (code 0, empty text). The timeout is the clock plus
  \<open>t * 1.5\<close>, computed on the reals; the sleep of \<open>t * 0.1\<close> before the first pass of
  the polling loop only delays that pass.
\<close>

definition execute_goal :: "exec_env \<Rightarrow> ActionServer \<Rightarrow> thread_end" where
  "execute_goal env s0 =
     (let s = add_call (setAccepted (curr_gh s0)) s0;
          res = \<lparr>error_code = 0, error_string = []\<rparr>
      in case translate_trajectory s (getGoal (curr_gh s)) of
           Inl e \<Rightarrow> Faulted e
         | Inr trajectory \<Rightarrow>
             let t = real_of_int (time_from_start (last trajectory)) / 1000000 in
             if use_smooth_trajectory s
             then
               (if \<not> follower_ok env
                then
                  let s1 = add_call (setAborted (curr_gh s) (hang_result res)) s in
                  if kill_on_hang s1 then Exited s1
                  else smooth_completion (start_time env + t * (3 / 2)) (last trajectory)
                         (ticks env) (hang_result res) s1
                else smooth_completion (start_time env + t * (3 / 2)) (last trajectory)
                       (ticks env) res s)
             else
               (if follower_ok env
                then
                  (if \<not> interrupted env
                   then Unlocked ((add_call (setSucceeded (curr_gh s) (res\<lparr>error_code := SUCCESSFUL\<rparr>)) s)
                                    \<lparr>has_goal := False, tj_mutex := False\<rparr>)
                   else Unlocked (s\<lparr>has_goal := False, tj_mutex := False\<rparr>))
                else
                  let s1 = add_call (setAborted (curr_gh s) (hang_result res)) s in
                  if kill_on_hang s1 then Exited s1
                  else Unlocked (s1\<lparr>has_goal := False, tj_mutex := False\<rparr>)))"

section \<open>Telemetry parsers (parser.h)\<close>

text \<open>
  \<open>BinParser\<close>, the two message-type enumerations and the packet classes are declared in
  headers that are not among the sources. The operations of the parser that the three
  \<open>parse\<close> methods call, and the enumerators they compare with, are the fields of a record
  the methods take as a parameter: \<open>peek_int32\<close> and \<open>check_size\<close> read the parser,
  each \<open>parse_...\<close> returns the value read and the parser after the read. The
  \<open>parse_with\<close> of a packet class is a parameter too; it returns the packet when the C++
  method returns true. A method returns the packet, or \<open>None\<close> for the null pointer, and
  the parser as it leaves it.
\<close>

record ('bp, 'mt, 'rmt) BinParser =
  peek_int32 :: "'bp \<Rightarrow> int"
  check_size :: "'bp \<Rightarrow> int \<Rightarrow> bool"
  parse_int32 :: "'bp \<Rightarrow> int \<times> 'bp"
  parse_type :: "'bp \<Rightarrow> 'mt \<times> 'bp"
  parse_uint64 :: "'bp \<Rightarrow> nat \<times> 'bp"
  parse_uint8 :: "'bp \<Rightarrow> nat \<times> 'bp"
  parse_robot_message_type :: "'bp \<Rightarrow> 'rmt \<times> 'bp"
  ROBOT_STATE :: 'mt
  ROBOT_MESSAGE :: 'mt
  ROBOT_MESSAGE_VERSION :: 'rmt

definition URStateParser_parse :: "('bp, 'mt, 'rmt) BinParser \<Rightarrow> ('bp \<Rightarrow> 'pkt option \<times> 'bp) \<Rightarrow> 'bp
    \<Rightarrow> 'pkt option \<times> 'bp" where
  "URStateParser_parse P parse_with bp =
     (let (packet_size, bp1) = parse_int32 P bp;
          (type, bp2) = parse_type P bp1
      in if type \<noteq> ROBOT_STATE P then (None, bp2)
         else parse_with bp2)"

definition URRTStateParser_parse :: "('bp, 'mt, 'rmt) BinParser \<Rightarrow> ('bp \<Rightarrow> 'pkt option \<times> 'bp) \<Rightarrow> 'bp
    \<Rightarrow> 'pkt option \<times> 'bp" where
  "URRTStateParser_parse P parse_with bp =
     (let packet_size = peek_int32 P bp
      in if \<not> check_size P bp packet_size then (None, bp)
         else let (packet_size', bp1) = parse_int32 P bp
              in parse_with bp1)"

text \<open>The \<open>switch\<close> has one case; any other message type leaves the null pointer.\<close>

definition URMessageParser_parse :: "('bp, 'mt, 'rmt) BinParser \<Rightarrow> ('bp \<Rightarrow> 'pkt option \<times> 'bp) \<Rightarrow> 'bp
    \<Rightarrow> 'pkt option \<times> 'bp" where
  "URMessageParser_parse P parse_with bp =
     (let packet_size = peek_int32 P bp
      in if \<not> check_size P bp packet_size then (None, bp)
         else let (packet_size', bp1) = parse_int32 P bp;
                  (type, bp2) = parse_type P bp1
              in if type \<noteq> ROBOT_MESSAGE P then (None, bp2)
                 else let (timestamp, bp3) = parse_uint64 P bp2;
                          (source, bp4) = parse_uint8 P bp3;
                          (message_type, bp5) = parse_robot_message_type P bp4
                      in if message_type = ROBOT_MESSAGE_VERSION P then parse_with bp5
                         else (None, bp5))"

section \<open>The two threads together\<close>

text \<open>
  The specification (section 5) has two threads: the admission thread, which runs
  \<open>onGoal\<close>, \<open>onCancel\<close> and \<open>onRobotStateChange\<close> one after the other, and the
  execution thread, which runs \<open>trajectoryThread\<close>. This section puts the statements of
  action\_server.cpp into one step function per thread; a step is one statement, and the
  steps of the two threads interleave in any order. \<open>updateState\<close> may run between any two
  steps.

  Labels of the admission thread: \<open>A_...\<close> are the statements of \<open>try_execute\<close>
  (\<open>A_try\<close>: the test of \<open>running_\<close> and \<open>try_lock\<close>; \<open>A_flag\<close>: \<open>interrupt_traj_ = true\<close>;
  \<open>A_abort\<close>: \<open>curr_gh_.setAborted\<close>; \<open>A_lock\<close>: \<open>tj_mutex_.lock()\<close>, which can only be
  taken when the lock is free; \<open>A_sleep\<close>: the sleep of 250 ms; \<open>A_install\<close>: \<open>curr_gh_ = gh\<close>;
  \<open>A_clear\<close>: \<open>interrupt_traj_ = false\<close>; \<open>A_mark\<close>: \<open>has_goal_ = true\<close>; \<open>A_unlock\<close>;
  \<open>A_notify\<close>), \<open>R_...\<close> those of \<open>onRobotStateChange\<close> after \<open>state_ = state\<close>
  (\<open>R_free\<close>: the unlock after a successful \<open>try_lock\<close>), and \<open>C_...\<close> those of
  \<open>onCancel\<close> after \<open>interrupt_traj_ = true\<close>.

  Labels of the execution thread: \<open>E_top\<close> is the loop's test and the \<open>unique_lock\<close>;
  \<open>E_wait\<close> is \<open>wait_for\<close> with the lock held, about to test \<open>running_ && has_goal_\<close>
  (a failed test releases the lock, and the thread comes back to \<open>E_top\<close>);
  \<open>E_run g cs e\<close> is the body for the goal \<open>g\<close>, with the calls on the goal handle it has
  still to make and how it ends: by \<open>has_goal_ = false\<close> and the unlock (\<open>E_unlock\<close>), by
  \<open>exit(0)\<close>, or never. The calls and the end are those of \<open>execute_goal\<close> in some
  environment, chosen when the body starts; the body makes them one step at a time.
  After \<open>exit(0)\<close> no thread takes a step.

  \<open>owner\<close> is the thread that holds \<open>tj_mutex_\<close>. Two fields record the history:
  \<open>submitted\<close>, the goal handles \<open>onGoal\<close> has received (a handle is received once; the
  handle \<open>curr_gh_\<close> starts with counts as used), and \<open>refused\<close>, the pairs \<open>(b, a)\<close> such
  that the \<open>try_lock\<close> of \<open>try_execute\<close> for \<open>b\<close> failed while \<open>curr_gh_\<close> was \<open>a\<close>; every
  failed \<open>try_lock\<close> of \<open>try_execute\<close> adds its pair.
\<close>

datatype thread = Admission | Execution

datatype adm_pc =
    A_idle
  | A_try GoalHandle Result
  | A_flag GoalHandle Result
  | A_abort GoalHandle Result
  | A_lock GoalHandle
  | A_sleep GoalHandle
  | A_install GoalHandle
  | A_clear GoalHandle
  | A_mark GoalHandle
  | A_unlock
  | A_notify
  | R_check RobotState
  | R_try
  | R_free
  | R_flag
  | R_lock
  | R_abort
  | R_unlock
  | C_lock GoalHandle
  | C_cancel GoalHandle
  | C_unlock

datatype body_end = Ends | Exits | Hangs

datatype exe_pc =
    E_top
  | E_wait
  | E_run GoalHandle "gh_call list" body_end
  | E_unlock GoalHandle
  | E_exited
  | E_stopped

record sys =
  shared :: ActionServer
  owner :: "thread option"
  adm :: adm_pc
  exe :: exe_pc
  submitted :: "GoalHandle list"
  refused :: "(GoalHandle \<times> GoalHandle) list"

definition lock :: "thread \<Rightarrow> sys \<Rightarrow> sys" where
  "lock t s = s\<lparr>owner := Some t, shared := (shared s)\<lparr>tj_mutex := True\<rparr>\<rparr>"

definition unlock :: "sys \<Rightarrow> sys" where
  "unlock s = s\<lparr>owner := None, shared := (shared s)\<lparr>tj_mutex := False\<rparr>\<rparr>"

definition upd :: "(ActionServer \<Rightarrow> ActionServer) \<Rightarrow> sys \<Rightarrow> sys" where
  "upd f s = s\<lparr>shared := f (shared s)\<rparr>"

fun executing_at :: "exe_pc \<Rightarrow> GoalHandle option" where
  "executing_at (E_run g cs e) = Some g"
| "executing_at (E_unlock g) = Some g"
| "executing_at E_top = None"
| "executing_at E_wait = None"
| "executing_at E_exited = None"
| "executing_at E_stopped = None"

definition executing_goal :: "sys \<Rightarrow> GoalHandle option" where
  "executing_goal s = executing_at (exe s)"

definition adm_step :: "sys \<Rightarrow> sys option" where
  "adm_step s =
     (case adm s of
        A_idle \<Rightarrow> None
      | A_try gh res \<Rightarrow>
          if \<not> running (shared s)
          then Some ((upd (add_call (setRejected gh (res\<lparr>error_string := ''Internal error''\<rparr>))) s)
                       \<lparr>adm := A_idle\<rparr>)
          else if owner s = None then Some ((lock Admission s)\<lparr>adm := A_install gh\<rparr>)
          else Some (s\<lparr>adm := A_flag gh res, refused := refused s @ [(gh, curr_gh (shared s))]\<rparr>)
      | A_flag gh res \<Rightarrow>
          Some ((upd (\<lambda>sh. sh\<lparr>interrupt_traj := True\<rparr>) s)\<lparr>adm := A_abort gh res\<rparr>)
      | A_abort gh res \<Rightarrow>
          Some ((upd (\<lambda>sh. add_call (setAborted (curr_gh sh)
                               (res\<lparr>error_string := ''Received another trajectory''\<rparr>)) sh) s)
                  \<lparr>adm := A_lock gh\<rparr>)
      | A_lock gh \<Rightarrow> if owner s = None then Some ((lock Admission s)\<lparr>adm := A_sleep gh\<rparr>) else None
      | A_sleep gh \<Rightarrow> Some (s\<lparr>adm := A_install gh\<rparr>)
      | A_install gh \<Rightarrow> Some ((upd (\<lambda>sh. sh\<lparr>curr_gh := gh\<rparr>) s)\<lparr>adm := A_clear gh\<rparr>)
      | A_clear gh \<Rightarrow> Some ((upd (\<lambda>sh. sh\<lparr>interrupt_traj := False\<rparr>) s)\<lparr>adm := A_mark gh\<rparr>)
      | A_mark gh \<Rightarrow> Some ((upd (\<lambda>sh. sh\<lparr>has_goal := True\<rparr>) s)\<lparr>adm := A_unlock\<rparr>)
      | A_unlock \<Rightarrow> Some ((unlock s)\<lparr>adm := A_notify\<rparr>)
      | A_notify \<Rightarrow> Some (s\<lparr>adm := A_idle\<rparr>)
      | R_check st \<Rightarrow>
          if st = Running then Some (s\<lparr>adm := A_idle\<rparr>)
          else if interrupt_traj (shared s) \<or> \<not> has_goal (shared s) then Some (s\<lparr>adm := A_idle\<rparr>)
          else Some (s\<lparr>adm := R_try\<rparr>)
      | R_try \<Rightarrow>
          if owner s = None then Some ((lock Admission s)\<lparr>adm := R_free\<rparr>)
          else Some (s\<lparr>adm := R_flag\<rparr>)
      | R_free \<Rightarrow> Some ((unlock s)\<lparr>adm := A_idle\<rparr>)
      | R_flag \<Rightarrow> Some ((upd (\<lambda>sh. sh\<lparr>interrupt_traj := True\<rparr>) s)\<lparr>adm := R_lock\<rparr>)
      | R_lock \<Rightarrow> if owner s = None then Some ((lock Admission s)\<lparr>adm := R_abort\<rparr>) else None
      | R_abort \<Rightarrow>
          Some ((upd (\<lambda>sh. add_call (setAborted (curr_gh sh)
                               \<lparr>error_code = - 100, error_string = ''Robot safety stop''\<rparr>) sh) s)
                  \<lparr>adm := R_unlock\<rparr>)
      | R_unlock \<Rightarrow> Some ((unlock s)\<lparr>adm := A_idle\<rparr>)
      | C_lock gh \<Rightarrow> if owner s = None then Some ((lock Admission s)\<lparr>adm := C_cancel gh\<rparr>) else None
      | C_cancel gh \<Rightarrow>
          Some ((upd (add_call (setCanceled gh
                        \<lparr>error_code = - 100, error_string = ''Goal cancelled by client''\<rparr>)) s)
                  \<lparr>adm := C_unlock\<rparr>)
      | C_unlock \<Rightarrow> Some ((unlock s)\<lparr>adm := A_idle\<rparr>))"

definition goal_step :: "(double \<Rightarrow> string) \<Rightarrow> GoalHandle \<Rightarrow> sys \<Rightarrow> sys option" where
  "goal_step to_string gh s =
     (if adm s \<noteq> A_idle \<or> gh \<in> set (submitted s) then None
      else case validate to_string (shared s) gh \<lparr>error_code = - 100, error_string = []\<rparr> of
             (False, res) \<Rightarrow>
               Some ((upd (add_call (setRejected gh res)) s)\<lparr>submitted := submitted s @ [gh]\<rparr>)
           | (True, res) \<Rightarrow>
               Some (s\<lparr>adm := A_try gh res, submitted := submitted s @ [gh]\<rparr>))"

definition notify_step :: "RobotState \<Rightarrow> sys \<Rightarrow> sys option" where
  "notify_step st s =
     (if adm s \<noteq> A_idle then None
      else Some ((upd (\<lambda>sh. sh\<lparr>state := st\<rparr>) s)\<lparr>adm := R_check st\<rparr>))"

definition cancel_step :: "GoalHandle \<Rightarrow> sys \<Rightarrow> sys option" where
  "cancel_step gh s =
     (if adm s \<noteq> A_idle then None
      else Some ((upd (\<lambda>sh. sh\<lparr>interrupt_traj := True\<rparr>) s)\<lparr>adm := C_lock gh\<rparr>))"

definition telemetry_step :: "double list \<Rightarrow> double list \<Rightarrow> sys \<Rightarrow> sys option" where
  "telemetry_step q qd s = Some (upd (\<lambda>sh. sh\<lparr>q_actual := q, qd_actual := qd\<rparr>) s)"

definition new_calls :: "ActionServer \<Rightarrow> ActionServer \<Rightarrow> gh_call list" where
  "new_calls sh sh' = drop (length (calls sh)) (calls sh')"

definition body_calls :: "exec_env \<Rightarrow> ActionServer \<Rightarrow> gh_call list" where
  "body_calls env sh =
     (case execute_goal env sh of
        Faulted e \<Rightarrow> [setAccepted (curr_gh sh)]
      | Exited sh' \<Rightarrow> new_calls sh sh'
      | Polling sh' \<Rightarrow> new_calls sh sh'
      | Unlocked sh' \<Rightarrow> new_calls sh sh')"

definition body_ends :: "exec_env \<Rightarrow> ActionServer \<Rightarrow> body_end" where
  "body_ends env sh =
     (case execute_goal env sh of
        Faulted e \<Rightarrow> Hangs
      | Exited sh' \<Rightarrow> Exits
      | Polling sh' \<Rightarrow> Hangs
      | Unlocked sh' \<Rightarrow> Ends)"

definition exe_step :: "exec_env \<Rightarrow> sys \<Rightarrow> sys option" where
  "exe_step env s =
     (case exe s of
        E_top \<Rightarrow>
          if \<not> running (shared s) then Some (s\<lparr>exe := E_stopped\<rparr>)
          else if owner s = None then Some ((lock Execution s)\<lparr>exe := E_wait\<rparr>)
          else None
      | E_wait \<Rightarrow>
          if running (shared s) \<and> has_goal (shared s)
          then Some (s\<lparr>exe := E_run (curr_gh (shared s)) (body_calls env (shared s))
                                 (body_ends env (shared s))\<rparr>)
          else Some ((unlock s)\<lparr>exe := E_top\<rparr>)
      | E_run g cs e \<Rightarrow>
          (case cs of
             c # cs' \<Rightarrow> Some ((upd (add_call c) s)\<lparr>exe := E_run g cs' e\<rparr>)
           | [] \<Rightarrow>
               (case e of
                  Ends \<Rightarrow> Some ((upd (\<lambda>sh. sh\<lparr>has_goal := False\<rparr>) s)\<lparr>exe := E_unlock g\<rparr>)
                | Exits \<Rightarrow> Some (s\<lparr>exe := E_exited\<rparr>)
                | Hangs \<Rightarrow> None))
      | E_unlock g \<Rightarrow> Some ((unlock s)\<lparr>exe := E_top\<rparr>)
      | E_exited \<Rightarrow> None
      | E_stopped \<Rightarrow> None)"

datatype action =
    Goal GoalHandle
  | Notify RobotState
  | Cancel GoalHandle
  | Telemetry "double list" "double list"
  | Adm
  | Exe exec_env

definition fire :: "(double \<Rightarrow> string) \<Rightarrow> action \<Rightarrow> sys \<Rightarrow> sys option" where
  "fire to_string a s =
     (if exe s = E_exited then None
      else case a of
             Goal gh \<Rightarrow> goal_step to_string gh s
           | Notify st \<Rightarrow> notify_step st s
           | Cancel gh \<Rightarrow> cancel_step gh s
           | Telemetry q qd \<Rightarrow> telemetry_step q qd s
           | Adm \<Rightarrow> adm_step s
           | Exe env \<Rightarrow> exe_step env s)"

definition initial :: "sys \<Rightarrow> bool" where
  "initial s = (adm s = A_idle \<and> exe s = E_top \<and> owner s = None
     \<and> \<not> tj_mutex (shared s) \<and> \<not> has_goal (shared s) \<and> calls (shared s) = []
     \<and> submitted s = [curr_gh (shared s)] \<and> refused s = [])"

inductive reachable :: "(double \<Rightarrow> string) \<Rightarrow> sys \<Rightarrow> bool" for to_string where
  start: "initial s \<Longrightarrow> reachable to_string s"
| step: "reachable to_string s \<Longrightarrow> fire to_string a s = Some s' \<Longrightarrow> reachable to_string s'"

fun run :: "(double \<Rightarrow> string) \<Rightarrow> action list \<Rightarrow> sys \<Rightarrow> sys option" where
  "run to_string [] s = Some s"
| "run to_string (a # as) s =
     (case fire to_string a s of None \<Rightarrow> None | Some s' \<Rightarrow> run to_string as s')"

text \<open>
  What holds in every reachable state, in terms of the lock's owner, the two labels, the
  current goal, the calls made, and the two histories. \<open>aborted a cs\<close>: among \<open>cs\<close> there
  is an abort of \<open>a\<close> with the preemption message; \<open>ordered a b cs\<close>: every
  \<open>setAccepted b\<close> in \<open>cs\<close> comes after such an abort.
\<close>

definition adm_locked :: "adm_pc \<Rightarrow> bool" where
  "adm_locked pc =
     (case pc of
        A_sleep gh \<Rightarrow> True | A_install gh \<Rightarrow> True | A_clear gh \<Rightarrow> True | A_mark gh \<Rightarrow> True
      | A_unlock \<Rightarrow> True | R_free \<Rightarrow> True | R_abort \<Rightarrow> True | R_unlock \<Rightarrow> True
      | C_cancel gh \<Rightarrow> True | C_unlock \<Rightarrow> True | _ \<Rightarrow> False)"

definition exe_locked :: "exe_pc \<Rightarrow> bool" where
  "exe_locked pc =
     (case pc of
        E_wait \<Rightarrow> True | E_run g cs e \<Rightarrow> True | E_unlock g \<Rightarrow> True | E_exited \<Rightarrow> True
      | _ \<Rightarrow> False)"

definition pending :: "adm_pc \<Rightarrow> GoalHandle option" where
  "pending pc =
     (case pc of
        A_try gh res \<Rightarrow> Some gh | A_flag gh res \<Rightarrow> Some gh | A_abort gh res \<Rightarrow> Some gh
      | A_lock gh \<Rightarrow> Some gh | A_sleep gh \<Rightarrow> Some gh | A_install gh \<Rightarrow> Some gh
      | _ \<Rightarrow> None)"

definition trying :: "adm_pc \<Rightarrow> GoalHandle option" where
  "trying pc = (case pc of A_try gh res \<Rightarrow> Some gh | _ \<Rightarrow> None)"

definition unaborted :: "adm_pc \<Rightarrow> GoalHandle option" where
  "unaborted pc = (case pc of A_flag gh res \<Rightarrow> Some gh | A_abort gh res \<Rightarrow> Some gh | _ \<Rightarrow> None)"

definition aborted :: "GoalHandle \<Rightarrow> gh_call list \<Rightarrow> bool" where
  "aborted a cs = (\<exists>r. setAborted a r \<in> set cs \<and> error_string r = ''Received another trajectory'')"

definition ordered :: "GoalHandle \<Rightarrow> GoalHandle \<Rightarrow> gh_call list \<Rightarrow> bool" where
  "ordered a b cs = (\<forall>pre post. cs = pre @ setAccepted b # post \<longrightarrow> aborted a pre)"

definition good :: "thread option \<Rightarrow> adm_pc \<Rightarrow> exe_pc \<Rightarrow> GoalHandle \<Rightarrow> gh_call list
    \<Rightarrow> GoalHandle list \<Rightarrow> (GoalHandle \<times> GoalHandle) list \<Rightarrow> bool" where
  "good ow a e cur cs su rf =
     ((ow = Some Execution) = exe_locked e
      \<and> (ow = Some Admission) = adm_locked a
      \<and> cur \<in> set su
      \<and> (\<forall>g. setAccepted g \<in> set cs \<longrightarrow> g \<in> set su)
      \<and> (\<forall>b. pending a = Some b \<longrightarrow> b \<in> set su \<and> setAccepted b \<notin> set cs \<and> cur \<noteq> b)
      \<and> (\<forall>g. executing_at e = Some g \<longrightarrow> cur = g)
      \<and> (\<forall>g ds x h. e = E_run g ds x \<longrightarrow> setAccepted h \<in> set ds \<longrightarrow> h = g)
      \<and> (\<forall>b c. (b, c) \<in> set rf \<longrightarrow>
             b \<in> set su \<and> trying a \<noteq> Some b \<and> ordered c b cs
             \<and> (if unaborted a = Some b then cur = c else aborted c cs)))"

definition invariant :: "sys \<Rightarrow> bool" where
  "invariant s = good (owner s) (adm s) (exe s) (curr_gh (shared s)) (calls (shared s))
             (submitted s) (refused s)"

section \<open>Example configuration\<close>

text \<open>The six joints of a UR arm in the controller's order, and an idle, started server.\<close>

definition ur_joints :: "string list" where
  "ur_joints = [''shoulder_pan_joint'', ''shoulder_lift_joint'', ''elbow_joint'',
                ''wrist_1_joint'', ''wrist_2_joint'', ''wrist_3_joint'']"

definition no_goal :: GoalHandle where
  "no_goal = \<lparr>gh_id = 0, getGoal = \<lparr>traj_joint_names = [], traj_points = []\<rparr>\<rparr>"

definition zeros :: "double list" where
  "zeros = [Fin 0, Fin 0, Fin 0, Fin 0, Fin 0, Fin 0]"

definition idle_server :: ActionServer where
  "idle_server =
     \<lparr>joint_names = ur_joints, max_velocity = Fin 10, interrupt_traj = False,
      has_goal = False, running = True, state = Running, use_smooth_trajectory = True,
      kill_on_hang = True, curr_gh = no_goal, q_actual = zeros, qd_actual = zeros,
      tj_mutex = False, calls = []\<rparr>"

definition at_time :: "int \<Rightarrow> int \<Rightarrow> double list \<Rightarrow> JointTrajectoryPoint" where
  "at_time s ns q =
     \<lparr>point_positions = q, point_velocities = zeros,
      point_time_from_start = \<lparr>sec = s, nsec = ns\<rparr>\<rparr>"

text \<open>
  A goal whose joint names are the controller's, rotated in the first three places, and
  one that names the first joint twice.
\<close>

definition rotated_joints :: "string list" where
  "rotated_joints = [''shoulder_lift_joint'', ''elbow_joint'', ''shoulder_pan_joint'',
                     ''wrist_1_joint'', ''wrist_2_joint'', ''wrist_3_joint'']"

definition rotated_goal :: GoalHandle where
  "rotated_goal =
     \<lparr>gh_id = 1,
      getGoal = \<lparr>traj_joint_names = rotated_joints,
                 traj_points = [at_time 0 0 [Fin 10, Fin 20, Fin 30, Fin 40, Fin 50, Fin 60]]\<rparr>\<rparr>"

definition doubled_joints :: "string list" where
  "doubled_joints = [''shoulder_pan_joint'', ''shoulder_pan_joint'', ''shoulder_lift_joint'',
                     ''elbow_joint'', ''wrist_1_joint'', ''wrist_2_joint'', ''wrist_3_joint'']"

definition doubled_goal :: GoalHandle where
  "doubled_goal =
     \<lparr>gh_id = 1,
      getGoal = \<lparr>traj_joint_names = doubled_joints, traj_points = [at_time 0 0 zeros]\<rparr>\<rparr>"

text \<open>
  A goal without points; a goal whose only point lies 500 ns after the start; a goal that
  moves every joint to 1 within two seconds.
\<close>

definition empty_goal :: GoalHandle where
  "empty_goal = \<lparr>gh_id = 2, getGoal = \<lparr>traj_joint_names = ur_joints, traj_points = []\<rparr>\<rparr>"

definition submicro_goal :: JointTrajectory where
  "submicro_goal = \<lparr>traj_joint_names = ur_joints, traj_points = [at_time 0 500 zeros]\<rparr>"

definition ones :: "double list" where
  "ones = [Fin 1, Fin 1, Fin 1, Fin 1, Fin 1, Fin 1]"

definition move_goal :: GoalHandle where
  "move_goal = \<lparr>gh_id = 3, getGoal = \<lparr>traj_joint_names = ur_joints, traj_points = [at_time 2 0 ones]\<rparr>\<rparr>"

text \<open>The server while the execution thread holds the lock for a goal.\<close>

definition executing :: "GoalHandle \<Rightarrow> ActionServer" where
  "executing gh = idle_server\<lparr>curr_gh := gh, has_goal := True, tj_mutex := True\<rparr>"

text \<open>The execution thread ends its goal and releases the lock, leaving all else as it is.\<close>

definition finish :: "ActionServer \<Rightarrow> ActionServer" where
  "finish s = s\<lparr>has_goal := False, tj_mutex := False\<rparr>"

text \<open>A pass of the polling loop with the interrupt flag down; a robot whose first joint moves.\<close>

definition observed :: "real \<Rightarrow> double list \<Rightarrow> double list \<Rightarrow> tick" where
  "observed t q qd = \<lparr>tick_now = t, tick_q = q, tick_qd = qd, tick_interrupt = False\<rparr>"

definition drifting :: "double list" where
  "drifting = [Fin 1, Fin 0, Fin 0, Fin 0, Fin 0, Fin 0]"

definition fresh_result :: Result where
  "fresh_result = \<lparr>error_code = - 100, error_string = []\<rparr>"

text \<open>
  A parser over a list of bytes, for the examples: big-endian fields, \<open>check_size\<close>
  comparing with the bytes left, and a payload that parses when it is not empty.
\<close>

fun big_endian :: "nat list \<Rightarrow> nat" where
  "big_endian [] = 0"
| "big_endian (b # bs) = b * 256 ^ length bs + big_endian bs"

definition byte_parser :: "(nat list, nat, nat) BinParser" where
  "byte_parser =
     \<lparr>peek_int32 = (\<lambda>bp. int (big_endian (take 4 bp))),
      check_size = (\<lambda>bp n. n \<le> int (length bp)),
      parse_int32 = (\<lambda>bp. (int (big_endian (take 4 bp)), drop 4 bp)),
      parse_type = (\<lambda>bp. (big_endian (take 1 bp), drop 1 bp)),
      parse_uint64 = (\<lambda>bp. (big_endian (take 8 bp), drop 8 bp)),
      parse_uint8 = (\<lambda>bp. (big_endian (take 1 bp), drop 1 bp)),
      parse_robot_message_type = (\<lambda>bp. (big_endian (take 1 bp), drop 1 bp)),
      ROBOT_STATE = 16, ROBOT_MESSAGE = 20, ROBOT_MESSAGE_VERSION = 3\<rparr>"

definition payload :: "nat list \<Rightarrow> nat list option \<times> nat list" where
  "payload bp = (if bp = [] then (None, bp) else (Some bp, []))"

text \<open>
  The two threads at the start, and two environments for the body of the execution thread:
  one in which the first pass of the polling loop sees the interrupt flag, and one in which it
  finds the arm at the final waypoint of \<open>move_goal\<close> and at rest. \<open>no_text\<close> stands in for
  \<open>std::to_string\<close>: the goals of the examples pass validation, which prints no number.
\<close>

definition boot :: "ActionServer \<Rightarrow> sys" where
  "boot sh = \<lparr>shared = sh, owner = None, adm = A_idle, exe = E_top,
              submitted = [curr_gh sh], refused = []\<rparr>"

definition interrupted_env :: exec_env where
  "interrupted_env = \<lparr>follower_ok = True, interrupted = True, start_time = 0,
      ticks = [\<lparr>tick_now = 1, tick_q = zeros, tick_qd = zeros, tick_interrupt = True\<rparr>]\<rparr>"

definition reached_env :: exec_env where
  "reached_env = \<lparr>follower_ok = True, interrupted = False, start_time = 0,
      ticks = [observed (1 / 5) ones zeros]\<rparr>"

definition no_text :: "double \<Rightarrow> string" where
  "no_text d = []"

text \<open>
  Schedules. \<open>arrival_schedule\<close>: \<open>move_goal\<close> is submitted and installed by
  \<open>try_execute\<close>; the execution thread takes the lock, starts its body for \<open>move_goal\<close> in
  the given environment and calls \<open>setAccepted\<close>; then \<open>rotated_goal\<close> is submitted and
  validated, and \<open>try_execute\<close> stands at its \<open>try_lock\<close>. \<open>takeover_schedule\<close>, after the
  failed \<open>try_lock\<close>: the admission thread sets the interrupt flag and aborts the current goal;
  the execution thread ends its body and releases the lock; the admission thread takes the
  lock, sleeps, installs \<open>rotated_goal\<close> and releases the lock; the execution thread takes it
  up and calls \<open>setAccepted\<close>. \<open>race_schedule\<close>: the failed \<open>try_lock\<close>, then one more call
  of the execution thread's body, then the same.
\<close>

definition arrival_schedule :: "exec_env \<Rightarrow> action list" where
  "arrival_schedule env =
     [Goal move_goal, Adm, Adm, Adm, Adm, Adm, Adm,
      Exe env, Exe env, Exe env,
      Goal rotated_goal]"

definition takeover_schedule :: "action list" where
  "takeover_schedule =
     [Adm, Adm,
      Exe interrupted_env, Exe interrupted_env,
      Adm, Adm, Adm, Adm, Adm, Adm, Adm,
      Exe interrupted_env, Exe interrupted_env, Exe interrupted_env]"

definition race_schedule :: "action list" where
  "race_schedule = Adm # Exe reached_env # takeover_schedule"

text \<open>
  What the examples read off a state: the admission thread's label, the goal in execution,
  the lock's owner, and the calls made on goal handles so far.
\<close>

definition observe :: "sys option
    \<Rightarrow> (adm_pc \<times> GoalHandle option \<times> thread option \<times> gh_call list) option" where
  "observe r = map_option (\<lambda>s. (adm s, executing_goal s, owner s, calls (shared s))) r"

section \<open>Facts about the translation\<close>

lemma replicate_six: "replicate 6 x = [x, x, x, x, x, x]"
  by (simp add: numeral_eq_Suc)

lemma reorderMap_rotated: "reorderMap idle_server rotated_joints = [2, 0, 1, 3, 4, 5]"
  by (simp add: reorderMap_def idle_server_def ur_joints_def rotated_joints_def)

lemma reorderMap_doubled: "reorderMap idle_server doubled_joints = [0, 2, 3, 4, 5, 6]"
  by (simp add: reorderMap_def idle_server_def ur_joints_def doubled_joints_def)

text \<open>
  C1. The goal \<open>rotated_goal\<close> names the six configured joints once each, in the order
  lift, elbow, pan, wrist 1, 2, 3, and gives them the positions 10, 20, 30, 40, 50, 60. It
  passes validation. In the controller's order (pan, lift, elbow, ...) its positions are
  30, 10, 20, 40, 50, 60; the translation produces 20, 30, 10, 40, 50, 60: the value written
  at the controller's index 0 is the goal's entry for the elbow joint, not for the pan joint.
  The loop stores entry \<open>i\<close> of the goal at index \<open>mapping[i]\<close>, which is the inverse of the
  permutation the names ask for.
\<close>

theorem rotated_goal_mistranslated:
  "fst (validate to_string idle_server rotated_goal fresh_result)
   \<and> sort rotated_joints = sort ur_joints
   \<and> translate_trajectory idle_server (getGoal rotated_goal)
       = Inr [\<lparr>positions = [Fin 20, Fin 30, Fin 10, Fin 40, Fin 50, Fin 60],
                velocities = zeros, time_from_start = 0\<rparr>]
   \<and> rotated_joints ! 2 = joint_names idle_server ! 0
   \<and> point_positions (hd (traj_points (getGoal rotated_goal))) ! 2 = Fin 30"
proof -
  have "fst (validate to_string idle_server rotated_goal fresh_result)"
    by (simp add: validate_def validateState_def validateJoints_def validateTrajectory_def
        idle_server_def rotated_goal_def rotated_joints_def ur_joints_def joint_set_def
        std_set_def at_time_def zeros_def fresh_result_def)
  moreover have "sort rotated_joints = sort ur_joints"
    by (simp add: rotated_joints_def ur_joints_def)
  moreover have "translate_trajectory idle_server (getGoal rotated_goal)
       = Inr [\<lparr>positions = [Fin 20, Fin 30, Fin 10, Fin 40, Fin 50, Fin 60],
                velocities = zeros, time_from_start = 0\<rparr>]"
    by (simp add: translate_trajectory_def rotated_goal_def reorderMap_rotated
        translate_point_def replicate_six at_time_def zeros_def convert_def t0_points_def)
  moreover have "rotated_joints ! 2 = joint_names idle_server ! 0"
    by (simp add: rotated_joints_def idle_server_def ur_joints_def)
  moreover have "point_positions (hd (traj_points (getGoal rotated_goal))) ! 2 = Fin 30"
    by (simp add: rotated_goal_def at_time_def)
  ultimately show ?thesis by blast
qed

text \<open>
  C9. The goal \<open>doubled_goal\<close> lists seven joint names, the pan joint twice. As a set its
  names are the configured ones, and its single point has six positions and velocities, so
  it passes validation. \<open>reorderMap\<close> then finds the last wrist joint at position 6 of
  the goal's list, and the translation writes \<open>pos[6]\<close>, past the end of the array.
\<close>

theorem doubled_goal_out_of_bounds:
  "fst (validate to_string idle_server doubled_goal fresh_result)
   \<and> reorderMap idle_server (traj_joint_names (getGoal doubled_goal)) = [0, 2, 3, 4, 5, 6]
   \<and> translate_trajectory idle_server (getGoal doubled_goal) = Inl OutOfBounds"
proof -
  have "fst (validate to_string idle_server doubled_goal fresh_result)"
    by (simp add: validate_def validateState_def validateJoints_def validateTrajectory_def
        idle_server_def doubled_goal_def doubled_joints_def ur_joints_def joint_set_def
        std_set_def at_time_def zeros_def fresh_result_def)
  moreover have "reorderMap idle_server (traj_joint_names (getGoal doubled_goal)) = [0, 2, 3, 4, 5, 6]"
    by (simp add: doubled_goal_def reorderMap_doubled)
  moreover have "translate_trajectory idle_server (getGoal doubled_goal) = Inl OutOfBounds"
    by (simp add: translate_trajectory_def doubled_goal_def reorderMap_doubled
        translate_point_def replicate_six at_time_def zeros_def)
  ultimately show ?thesis by blast
qed

lemma reorderMap_ur: "reorderMap idle_server ur_joints = [0, 1, 2, 3, 4, 5]"
  by (simp add: reorderMap_def idle_server_def ur_joints_def)

lemma convert_pos: "(convert dur > 0) = (1000 \<le> toNSec dur)"
  by (auto simp: convert_def toNSec_def Let_def)

lemma translate_points_length:
  "translate_points mapping pts = Inr tps \<Longrightarrow> length tps = length pts"
  by (induction pts arbitrary: tps) (auto split: sum.splits)

text \<open>
  C6, as the code has it. The first point's time is truncated to whole microseconds before
  it is compared with zero. For a goal with a first point \<open>fp\<close> whose points translate
  (to \<open>tps\<close>, one translated point per point of the goal), the trajectory handed to the
  follower is \<open>tps\<close>, preceded by exactly one point (current actual position and velocity,
  time 0) if and only if the first point's time from start is at least 1000 ns. The position
  of the first point plays no part.
\<close>

theorem t0_insertion:
  assumes "traj_points goal = fp # rest"
    and "translate_points (reorderMap s (traj_joint_names goal)) (traj_points goal) = Inr tps"
  shows "length tps = length (traj_points goal)
    \<and> translate_trajectory s goal =
        Inr ((if 1000 \<le> toNSec (point_time_from_start fp)
              then [\<lparr>positions = q_actual s, velocities = qd_actual s, time_from_start = 0\<rparr>]
              else []) @ tps)"
  using assms translate_points_length [OF assms(2)]
  by (simp add: translate_trajectory_def t0_points_def convert_pos)

lemma move_points:
  "translate_points (reorderMap idle_server (traj_joint_names (getGoal move_goal)))
     (traj_points (getGoal move_goal))
   = Inr [\<lparr>positions = ones, velocities = zeros, time_from_start = 2000000\<rparr>]"
  by (simp add: move_goal_def reorderMap_ur translate_point_def replicate_six at_time_def
      zeros_def ones_def convert_def)

theorem t0_insertion_witness:
  "translate_trajectory idle_server (getGoal move_goal)
   = Inr [\<lparr>positions = zeros, velocities = zeros, time_from_start = 0\<rparr>,
          \<lparr>positions = ones, velocities = zeros, time_from_start = 2000000\<rparr>]"
  using t0_insertion [OF _ move_points, of "at_time 2 0 ones" "[]"]
  by (simp add: move_goal_def toNSec_def at_time_def idle_server_def)

text \<open>
  C6, as the claim states it, fails: the only point of \<open>submicro_goal\<close> has a time from
  start of 500 ns, strictly greater than zero, and the trajectory handed to the follower has
  no synthesized point before it.
\<close>

theorem submicrosecond_start_not_padded:
  "0 < toNSec (point_time_from_start (hd (traj_points submicro_goal)))
   \<and> translate_trajectory idle_server submicro_goal
       = Inr [\<lparr>positions = zeros, velocities = zeros, time_from_start = 0\<rparr>]"
  by (simp add: submicro_goal_def toNSec_def at_time_def translate_trajectory_def reorderMap_ur
      translate_point_def replicate_six zeros_def convert_def t0_points_def)

section \<open>Facts about validation and admission\<close>

lemma finite_le: "isfinite v \<Longrightarrow> mv \<noteq> NaN \<Longrightarrow> dle (fabs v) mv = (\<not> dgreater (fabs v) mv)"
  by (cases v; cases mv) auto

lemma check_velocities_fst:
  "fst (check_velocities ts mv res vs) = (\<forall>v\<in>set vs. isfinite v \<and> \<not> dgreater (fabs v) mv)"
  by (induction vs) auto

lemma check_velocities_code:
  "error_code (snd (check_velocities ts mv res vs)) = error_code res"
  by (induction vs) auto

lemma check_velocities_True:
  "check_velocities ts mv res vs = (True, res') \<Longrightarrow> res' = res"
  by (induction vs) (auto split: if_splits)

lemma check_positions_fst:
  "fst (check_positions res ps) = (\<forall>x\<in>set ps. isfinite x)"
  by (induction ps) auto

lemma check_positions_code:
  "error_code (snd (check_positions res ps)) = error_code res"
  by (induction ps) auto

lemma check_positions_True:
  "check_positions res ps = (True, res') \<Longrightarrow> res' = res"
  by (induction ps) (auto split: if_splits)

text \<open>One pass of the loop over the points: a good point is passed over, a bad one ends it.\<close>

lemma check_points_step:
  "check_points ts s res (p # pts) =
     (if point_ok s p then check_points ts s res pts
      else (False, snd (check_points ts s res [p])))"
proof (cases "length (point_velocities p) = length (joint_names s)
      \<and> length (point_positions p) = length (joint_names s)")
  case False
  then have "\<not> point_ok s p" by (auto simp: point_ok_def)
  then show ?thesis using False by auto
next
  case len: True
  obtain b1 r1 where v: "check_velocities ts (max_velocity s) res (point_velocities p) = (b1, r1)"
    by (cases "check_velocities ts (max_velocity s) res (point_velocities p)")
  show ?thesis
  proof (cases b1)
    case False
    then have "\<not> point_ok s p"
      using check_velocities_fst [of ts "max_velocity s" res "point_velocities p"] v
      by (simp add: point_ok_def)
    then show ?thesis using len v False by simp
  next
    case True
    then have r1: "r1 = res" using v by (auto dest: check_velocities_True)
    have vel: "\<forall>v\<in>set (point_velocities p). isfinite v \<and> \<not> dgreater (fabs v) (max_velocity s)"
      using check_velocities_fst [of ts "max_velocity s" res "point_velocities p"] v True by simp
    have v': "check_velocities ts (max_velocity s) res (point_velocities p) = (True, res)"
      using v True r1 by simp
    obtain b2 r2 where q: "check_positions res (point_positions p) = (b2, r2)"
      by (cases "check_positions res (point_positions p)")
    show ?thesis
    proof (cases b2)
      case False
      then have "\<not> point_ok s p"
        using check_positions_fst [of res "point_positions p"] q
        by (simp add: point_ok_def)
      then show ?thesis using len v' q False by simp
    next
      case True
      then have r2: "r2 = res" using q by (auto dest: check_positions_True)
      have "\<forall>x\<in>set (point_positions p). isfinite x"
        using check_positions_fst [of res "point_positions p"] q True by simp
      then have "point_ok s p" using len vel by (simp add: point_ok_def)
      then show ?thesis using len v' q True r2 by simp
    qed
  qed
qed

lemma check_points_fst:
  "fst (check_points ts s res pts) = (\<forall>p\<in>set pts. point_ok s p)"
proof (induction pts)
  case Nil
  show ?case by simp
next
  case (Cons p pts)
  show ?case unfolding check_points_step [of ts s res p pts] using Cons.IH by simp
qed

lemma check_points_True:
  "fst (check_points ts s res pts) \<Longrightarrow> snd (check_points ts s res pts) = res"
proof (induction pts)
  case Nil
  show ?case by simp
next
  case (Cons p pts)
  then show ?case unfolding check_points_step [of ts s res p pts] by (simp split: if_splits)
qed

lemma check_points_single_code:
  assumes c: "error_code res = INVALID_GOAL"
  shows "error_code (snd (check_points ts s res [p])) = INVALID_GOAL"
proof -
  obtain b1 r1 where v: "check_velocities ts (max_velocity s) res (point_velocities p) = (b1, r1)"
    by (cases "check_velocities ts (max_velocity s) res (point_velocities p)")
  obtain b2 r2 where q: "check_positions r1 (point_positions p) = (b2, r2)"
    by (cases "check_positions r1 (point_positions p)")
  have c1: "error_code r1 = INVALID_GOAL"
    using check_velocities_code [of ts "max_velocity s" res "point_velocities p"] v c by simp
  have c2: "error_code r2 = INVALID_GOAL"
    using check_positions_code [of r1 "point_positions p"] q c1 by simp
  show ?thesis
    using v q c c1 c2 by (cases b1; cases b2) simp_all
qed

lemma check_points_code:
  "error_code res = INVALID_GOAL \<Longrightarrow> error_code (snd (check_points ts s res pts)) = INVALID_GOAL"
proof (induction pts)
  case Nil
  then show ?case by simp
next
  case (Cons p pts)
  show ?case
    unfolding check_points_step [of ts s res p pts]
    using Cons check_points_single_code [of res ts s p] by simp
qed

text \<open>Two \<open>std::set\<close>s built from lists are equal exactly when the lists have the same elements.\<close>

lemma std_set_eq: "(std_set xs = std_set ys) = (set xs = set ys)"
proof
  assume "std_set xs = std_set ys"
  then have "set (std_set xs) = set (std_set ys)" by simp
  then show "set xs = set ys" by (simp add: std_set_def)
next
  assume "set xs = set ys"
  then have "sorted_list_of_set (set xs) = sorted_list_of_set (set ys)" by simp
  then show "std_set xs = std_set ys" by (simp add: std_set_def sorted_list_of_set_sort_remdups)
qed

lemma validateTrajectory_fst:
  "fst (validateTrajectory ts s gh res) =
     (traj_points (getGoal gh) \<noteq> [] \<and> (\<forall>p\<in>set (traj_points (getGoal gh)). point_ok s p))"
  by (cases "traj_points (getGoal gh)")
    (simp_all add: validateTrajectory_def Let_def check_points_fst del: check_points.simps)

lemma validateTrajectory_code:
  "error_code (snd (validateTrajectory ts s gh res)) = INVALID_GOAL"
  by (simp add: validateTrajectory_def Let_def check_points_code del: check_points.simps)

lemma validateJoints_fst:
  "fst (validateJoints s gh res) = (set (traj_joint_names (getGoal gh)) = set (joint_names s))"
  by (simp add: validateJoints_def joint_set_def std_set_eq Let_def)

lemma validateJoints_True: "fst (validateJoints s gh res) \<Longrightarrow> validateJoints s gh res = (True, res)"
  by (simp add: validateJoints_def Let_def split: if_splits)

lemma validateJoints_code:
  "\<not> fst (validateJoints s gh res) \<Longrightarrow> error_code (snd (validateJoints s gh res)) = INVALID_JOINTS"
  by (simp add: validateJoints_def Let_def split: if_splits)

lemma validateState_fst: "fst (validateState s res) = (state s = Running)"
  by (cases "state s") (simp_all add: validateState_def)

lemma validateState_True: "state s = Running \<Longrightarrow> validateState s res = (True, res)"
  by (simp add: validateState_def)

lemma validateState_code: "error_code (snd (validateState s res)) = error_code res"
  by (cases "state s") (simp_all add: validateState_def)

text \<open>The three checks in their order: the first that fails decides the result.\<close>

lemma validate_cases:
  "validate ts s gh res =
     (if state s \<noteq> Running then (False, snd (validateState s res))
      else if set (traj_joint_names (getGoal gh)) \<noteq> set (joint_names s)
      then (False, snd (validateJoints s gh res))
      else validateTrajectory ts s gh res)"
proof (cases "state s = Running")
  case False
  then have "\<not> fst (validateState s res)" by (simp add: validateState_fst)
  then show ?thesis using False by (cases "validateState s res") (auto simp: validate_def)
next
  case run: True
  show ?thesis
  proof (cases "set (traj_joint_names (getGoal gh)) = set (joint_names s)")
    case False
    then have "\<not> fst (validateJoints s gh res)" by (simp add: validateJoints_fst)
    then show ?thesis using run False
      by (cases "validateJoints s gh res") (auto simp: validate_def validateState_True)
  next
    case True
    then have "validateJoints s gh res = (True, res)"
      by (simp add: validateJoints_True validateJoints_fst)
    then show ?thesis using run True
      by (cases "validateTrajectory ts s gh res") (auto simp: validate_def validateState_True)
  qed
qed

lemma validate_fst:
  "fst (validate ts s gh res) =
     (state s = Running
      \<and> set (traj_joint_names (getGoal gh)) = set (joint_names s)
      \<and> traj_points (getGoal gh) \<noteq> []
      \<and> (\<forall>p\<in>set (traj_points (getGoal gh)). point_ok s p))"
  by (auto simp add: validate_cases validateTrajectory_fst)

lemma validate_snd:
  assumes "fst (validate ts s gh res)"
  shows "snd (validate ts s gh res) = res\<lparr>error_code := INVALID_GOAL\<rparr>"
proof -
  have run: "state s = Running" and js: "set (traj_joint_names (getGoal gh)) = set (joint_names s)"
    and vt: "fst (validateTrajectory ts s gh res)"
    using assms by (auto simp: validate_cases split: if_splits)
  have "traj_points (getGoal gh) \<noteq> []" using vt by (simp add: validateTrajectory_fst)
  then have "snd (validateTrajectory ts s gh res) = res\<lparr>error_code := INVALID_GOAL\<rparr>"
    using vt check_points_True [of ts s "res\<lparr>error_code := INVALID_GOAL\<rparr>" "traj_points (getGoal gh)"]
    by (simp add: validateTrajectory_def Let_def del: check_points.simps)
  then show ?thesis using run js by (simp add: validate_cases)
qed

text \<open>With a finite magnitude and a bound that is a number, ``not greater'' is ``at most''.\<close>

lemma point_ok_spec:
  assumes "max_velocity s \<noteq> NaN"
  shows "point_ok s p =
     (length (point_positions p) = length (joint_names s)
      \<and> length (point_velocities p) = length (joint_names s)
      \<and> (\<forall>x\<in>set (point_positions p). isfinite x)
      \<and> (\<forall>v\<in>set (point_velocities p). isfinite v \<and> dle (fabs v) (max_velocity s)))"
  unfolding point_ok_def using finite_le [OF _ assms] by blast

lemma try_execute_running:
  "running s \<Longrightarrow> try_execute exec s gh res =
     (True,
      (if tj_mutex s then res\<lparr>error_string := ''Received another trajectory''\<rparr> else res),
      (if tj_mutex s
       then exec (s\<lparr>interrupt_traj := True,
                     calls := calls s @ [setAborted (curr_gh s)
                                (res\<lparr>error_string := ''Received another trajectory''\<rparr>)]\<rparr>)
       else s)\<lparr>curr_gh := gh, interrupt_traj := False, has_goal := True, tj_mutex := False\<rparr>)"
  by (simp add: try_execute_def Let_def)

text \<open>
  C3. Let the server be started (\<open>running\<close>) and its velocity bound be a number. The goal
  is admitted exactly when the robot state is \<open>Running\<close>, the goal's joint names are, as a
  set, the configured ones, the trajectory has a point, and every point has as many positions
  and velocities as there are configured joints, all of them finite, every velocity of
  magnitude at most \<open>max_velocity\<close>. Admission installs the goal as the current goal and
  raises \<open>has_goal\<close>, after aborting the goal in execution if the lock is held.
  Otherwise the only effect is one call of \<open>setRejected\<close> on the goal's handle: nothing the
  execution thread reads is changed. The result carries \<open>INVALID_JOINTS\<close> when the joint
  names are the first check to fail and \<open>INVALID_GOAL\<close> when the trajectory's content is
  (and the initial -100 when the robot state is).
\<close>

theorem onGoal_admission:
  assumes "running s" and "max_velocity s \<noteq> NaN"
  shows "if state s = Running
            \<and> set (traj_joint_names (getGoal gh)) = set (joint_names s)
            \<and> traj_points (getGoal gh) \<noteq> []
            \<and> (\<forall>p\<in>set (traj_points (getGoal gh)).
                  length (point_positions p) = length (joint_names s)
                \<and> length (point_velocities p) = length (joint_names s)
                \<and> (\<forall>x\<in>set (point_positions p). isfinite x)
                \<and> (\<forall>v\<in>set (point_velocities p). isfinite v \<and> dle (fabs v) (max_velocity s)))
         then onGoal to_string exec s gh =
                (if tj_mutex s
                 then exec (s\<lparr>interrupt_traj := True,
                               calls := calls s @ [setAborted (curr_gh s)
                                 \<lparr>error_code = INVALID_GOAL,
                                  error_string = ''Received another trajectory''\<rparr>]\<rparr>)
                 else s)\<lparr>curr_gh := gh, interrupt_traj := False, has_goal := True, tj_mutex := False\<rparr>
         else (\<exists>res. onGoal to_string exec s gh = s\<lparr>calls := calls s @ [setRejected gh res]\<rparr>
                \<and> (state s \<noteq> Running \<longrightarrow> error_code res = - 100)
                \<and> (state s = Running \<and> set (traj_joint_names (getGoal gh)) \<noteq> set (joint_names s)
                     \<longrightarrow> error_code res = INVALID_JOINTS)
                \<and> (state s = Running \<and> set (traj_joint_names (getGoal gh)) = set (joint_names s)
                     \<longrightarrow> error_code res = INVALID_GOAL))"
    (is "if ?C then ?A else ?B")
proof -
  let ?res = "\<lparr>error_code = - 100, error_string = []\<rparr>"
  obtain b r where v: "validate to_string s gh ?res = (b, r)"
    by (cases "validate to_string s gh ?res")
  have C: "?C = fst (validate to_string s gh ?res)"
    unfolding validate_fst point_ok_spec [OF assms(2)] by (rule refl)
  show ?thesis
  proof (cases b)
    case True
    then have "fst (validate to_string s gh ?res)" using v by simp
    then have "r = ?res\<lparr>error_code := INVALID_GOAL\<rparr>"
      using validate_snd [of to_string s gh ?res] v by simp
    then have v': "validate to_string s gh ?res = (True, \<lparr>error_code = INVALID_GOAL, error_string = []\<rparr>)"
      using v True by simp
    have A: ?A
      using v' by (simp add: onGoal_def try_execute_running [OF assms(1)])
    have "?C" using True C v by simp
    then show ?thesis unfolding if_P [OF \<open>?C\<close>] using A by blast
  next
    case False
    then have v': "validate to_string s gh ?res = (False, r)" using v by simp
    have og: "onGoal to_string exec s gh = s\<lparr>calls := calls s @ [setRejected gh r]\<rparr>"
      using v' by (simp add: onGoal_def)
    have r: "r = snd (validate to_string s gh ?res)" using v by simp
    have c1: "state s \<noteq> Running \<Longrightarrow> error_code r = - 100"
      unfolding r by (simp add: validate_cases validateState_code)
    have c2: "state s = Running \<Longrightarrow> set (traj_joint_names (getGoal gh)) \<noteq> set (joint_names s)
         \<Longrightarrow> error_code r = INVALID_JOINTS"
      unfolding r by (simp add: validate_cases validateJoints_code validateJoints_fst)
    have c3: "state s = Running \<Longrightarrow> set (traj_joint_names (getGoal gh)) = set (joint_names s)
         \<Longrightarrow> error_code r = INVALID_GOAL"
      unfolding r by (simp add: validate_cases validateTrajectory_code)
    have B: ?B
      using og c1 c2 c3 by blast
    have "\<not> ?C" using False C v by simp
    then show ?thesis unfolding if_not_P [OF \<open>\<not> ?C\<close>] using B by blast
  qed
qed

theorem onGoal_admission_witness:
  "running idle_server \<and> max_velocity idle_server \<noteq> NaN
   \<and> onGoal (\<lambda>d. []) finish idle_server rotated_goal
       = idle_server\<lparr>curr_gh := rotated_goal, has_goal := True\<rparr>"
proof -
  have r: "running idle_server" and m: "max_velocity idle_server \<noteq> NaN"
    by (simp_all add: idle_server_def)
  have c: "state idle_server = Running
            \<and> set (traj_joint_names (getGoal rotated_goal)) = set (joint_names idle_server)
            \<and> traj_points (getGoal rotated_goal) \<noteq> []
            \<and> (\<forall>p\<in>set (traj_points (getGoal rotated_goal)).
                  length (point_positions p) = length (joint_names idle_server)
                \<and> length (point_velocities p) = length (joint_names idle_server)
                \<and> (\<forall>x\<in>set (point_positions p). isfinite x)
                \<and> (\<forall>v\<in>set (point_velocities p). isfinite v \<and> dle (fabs v) (max_velocity idle_server)))"
    by (auto simp: idle_server_def rotated_goal_def rotated_joints_def ur_joints_def at_time_def zeros_def)
  show ?thesis
    using onGoal_admission [OF r m, of rotated_goal "\<lambda>d. []" finish] r m
    unfolding if_P [OF c] by (simp add: idle_server_def)
qed

text \<open>
  Every rejection by \<open>validate\<close> carries a message, but for one case: the robot running,
  the joint names right, and no point in the trajectory.
\<close>

lemma check_velocities_message:
  "\<not> fst (check_velocities ts mv res vs) \<Longrightarrow> error_string (snd (check_velocities ts mv res vs)) \<noteq> []"
  by (induction vs) auto

lemma check_positions_message:
  "\<not> fst (check_positions res ps) \<Longrightarrow> error_string (snd (check_positions res ps)) \<noteq> []"
  by (induction ps) auto

lemma check_points_single_message:
  assumes "\<not> point_ok s p"
  shows "error_string (snd (check_points ts s res [p])) \<noteq> []"
proof (cases "length (point_velocities p) = length (joint_names s)
      \<and> length (point_positions p) = length (joint_names s)")
  case False
  then show ?thesis by auto
next
  case len: True
  obtain b1 r1 where v: "check_velocities ts (max_velocity s) res (point_velocities p) = (b1, r1)"
    by (cases "check_velocities ts (max_velocity s) res (point_velocities p)")
  show ?thesis
  proof (cases b1)
    case False
    then have "error_string r1 \<noteq> []"
      using check_velocities_message [of ts "max_velocity s" res "point_velocities p"] v by simp
    then show ?thesis using len v False by simp
  next
    case True
    then have vel: "\<forall>v\<in>set (point_velocities p). isfinite v \<and> \<not> dgreater (fabs v) (max_velocity s)"
      using check_velocities_fst [of ts "max_velocity s" res "point_velocities p"] v by simp
    obtain b2 r2 where q: "check_positions r1 (point_positions p) = (b2, r2)"
      by (cases "check_positions r1 (point_positions p)")
    have "\<not> b2"
      using check_positions_fst [of r1 "point_positions p"] q assms len vel
      by (auto simp: point_ok_def)
    then have "error_string r2 \<noteq> []"
      using check_positions_message [of r1 "point_positions p"] q by simp
    then show ?thesis using len v True q \<open>\<not> b2\<close> by simp
  qed
qed

lemma check_points_message:
  "\<not> fst (check_points ts s res pts) \<Longrightarrow> error_string (snd (check_points ts s res pts)) \<noteq> []"
proof (induction pts)
  case Nil
  then show ?case by simp
next
  case (Cons p pts)
  then show ?case
    unfolding check_points_step [of ts s res p pts]
    using check_points_single_message [of s p ts res] by (simp split: if_splits)
qed

lemma rejection_message:
  assumes "\<not> fst (validate ts s gh res)"
    and "state s = Running \<and> set (traj_joint_names (getGoal gh)) = set (joint_names s)
           \<longrightarrow> traj_points (getGoal gh) \<noteq> []"
  shows "error_string (snd (validate ts s gh res)) \<noteq> []"
proof (cases "state s = Running")
  case False
  then show ?thesis by (cases "state s") (simp_all add: validate_cases validateState_def)
next
  case run: True
  show ?thesis
  proof (cases "set (traj_joint_names (getGoal gh)) = set (joint_names s)")
    case False
    then have "\<not> fst (validateJoints s gh res)" by (simp add: validateJoints_fst)
    then have "error_string (snd (validateJoints s gh res)) \<noteq> []"
      by (simp add: validateJoints_def Let_def split: if_splits)
    then show ?thesis using run False by (simp add: validate_cases)
  next
    case True
    then have ne: "traj_points (getGoal gh) \<noteq> []" using assms(2) run by simp
    have "\<not> fst (validateTrajectory ts s gh res)"
      using assms(1) run True by (simp add: validate_cases)
    then have "error_string (snd (validateTrajectory ts s gh res)) \<noteq> []"
      using ne check_points_message [of ts s "res\<lparr>error_code := INVALID_GOAL\<rparr>" "traj_points (getGoal gh)"]
      by (simp add: validateTrajectory_def Let_def del: check_points.simps)
    then show ?thesis using run True by (simp add: validate_cases)
  qed
qed

text \<open>
  C8. The goal \<open>empty_goal\<close> names the configured joints and has no point. With the robot
  running, it is rejected with the code \<open>INVALID_GOAL\<close> and an empty message:
  \<open>validateTrajectory\<close> returns on the size test before any message is written.
\<close>

theorem empty_trajectory_rejected_without_message:
  "onGoal to_string exec idle_server empty_goal
   = idle_server\<lparr>calls := [setRejected empty_goal \<lparr>error_code = INVALID_GOAL, error_string = []\<rparr>]\<rparr>"
  by (simp add: onGoal_def validate_def validateState_def validateJoints_def validateTrajectory_def
      idle_server_def empty_goal_def joint_set_def)

section \<open>Facts about the safety stop\<close>

text \<open>
  C7. A notification of \<open>Running\<close> only records the state. A notification of another
  state only records it when the interrupt flag is already set, or no goal is present, or the
  lock is free. Otherwise it sets the flag, waits for the lock and then aborts the current
  goal with code -100 and the message ``Robot safety stop''. The execution thread never
  lowers the flag; so, the flag still being set when the lock is obtained, a further
  notification of a state other than \<open>Running\<close> only records that state: no second abort.
\<close>

theorem safety_stop_edge_triggered:
  "onRobotStateChange exec s Running = s\<lparr>state := Running\<rparr>
   \<and> (st \<noteq> Running \<and> (interrupt_traj s \<or> \<not> has_goal s \<or> \<not> tj_mutex s)
        \<longrightarrow> onRobotStateChange exec s st = s\<lparr>state := st\<rparr>)
   \<and> (st \<noteq> Running \<and> \<not> interrupt_traj s \<and> has_goal s \<and> tj_mutex s
        \<longrightarrow> onRobotStateChange exec s st =
              (let s1 = exec (s\<lparr>state := st, interrupt_traj := True\<rparr>)
               in s1\<lparr>calls := calls s1 @ [setAborted (curr_gh s1)
                          \<lparr>error_code = - 100, error_string = ''Robot safety stop''\<rparr>],
                      tj_mutex := False\<rparr>))
   \<and> (st \<noteq> Running \<and> st' \<noteq> Running \<and> \<not> interrupt_traj s \<and> has_goal s \<and> tj_mutex s
       \<and> interrupt_traj (exec (s\<lparr>state := st, interrupt_traj := True\<rparr>))
        \<longrightarrow> onRobotStateChange exec' (onRobotStateChange exec s st) st'
             = (onRobotStateChange exec s st)\<lparr>state := st'\<rparr>)"
  by (simp add: onRobotStateChange_def Let_def)

theorem safety_stop_edge_triggered_witness:
  "onRobotStateChange finish (executing move_goal) ProtectiveStopped
     = idle_server\<lparr>state := ProtectiveStopped, interrupt_traj := True, curr_gh := move_goal,
         calls := [setAborted move_goal \<lparr>error_code = - 100, error_string = ''Robot safety stop''\<rparr>]\<rparr>
   \<and> onRobotStateChange finish
        (onRobotStateChange finish (executing move_goal) ProtectiveStopped) EmergencyStopped
     = idle_server\<lparr>state := EmergencyStopped, interrupt_traj := True, curr_gh := move_goal,
         calls := [setAborted move_goal \<lparr>error_code = - 100, error_string = ''Robot safety stop''\<rparr>]\<rparr>"
proof -
  let ?s = "executing move_goal"
  note t = safety_stop_edge_triggered [of finish ?s ProtectiveStopped EmergencyStopped finish]
  have pre: "ProtectiveStopped \<noteq> Running \<and> \<not> interrupt_traj ?s \<and> has_goal ?s \<and> tj_mutex ?s"
    by (simp add: executing_def idle_server_def)
  have pre': "EmergencyStopped \<noteq> Running
      \<and> interrupt_traj (finish (?s\<lparr>state := ProtectiveStopped, interrupt_traj := True\<rparr>))"
    by (simp add: finish_def)
  have first: "onRobotStateChange finish ?s ProtectiveStopped =
      (let s1 = finish (?s\<lparr>state := ProtectiveStopped, interrupt_traj := True\<rparr>)
       in s1\<lparr>calls := calls s1 @ [setAborted (curr_gh s1)
                  \<lparr>error_code = - 100, error_string = ''Robot safety stop''\<rparr>],
              tj_mutex := False\<rparr>)"
    using t pre by blast
  have second: "onRobotStateChange finish (onRobotStateChange finish ?s ProtectiveStopped) EmergencyStopped
      = (onRobotStateChange finish ?s ProtectiveStopped)\<lparr>state := EmergencyStopped\<rparr>"
    using t pre pre' by blast
  let ?X = "idle_server\<lparr>state := ProtectiveStopped, interrupt_traj := True, curr_gh := move_goal,
         calls := [setAborted move_goal \<lparr>error_code = - 100, error_string = ''Robot safety stop''\<rparr>]\<rparr>"
  have a: "onRobotStateChange finish ?s ProtectiveStopped = ?X"
    unfolding first by (simp add: executing_def finish_def idle_server_def)
  have b: "onRobotStateChange finish ?X EmergencyStopped = ?X\<lparr>state := EmergencyStopped\<rparr>"
    using second unfolding a .
  show ?thesis
    unfolding a b by simp
qed

section \<open>Facts about the execution thread\<close>

lemma add_call_fields [simp]:
  "curr_gh (add_call c s) = curr_gh s"
  "use_smooth_trajectory (add_call c s) = use_smooth_trajectory s"
  "kill_on_hang (add_call c s) = kill_on_hang s"
  "calls (add_call c s) = calls s @ [c]"
  by (simp_all add: add_call_def)

lemma translate_add_call [simp]: "translate_trajectory (add_call c s) g = translate_trajectory s g"
  by (simp add: translate_trajectory_def add_call_def reorderMap_def t0_points_def
      split: list.splits sum.splits)

text \<open>The smooth branch, once the translation has succeeded.\<close>

lemma execute_goal_smooth:
  assumes "translate_trajectory s (getGoal (curr_gh s)) = Inr trajectory"
    and "use_smooth_trajectory s"
  shows "execute_goal env s =
     (if follower_ok env
      then smooth_completion
             (start_time env + real_of_int (time_from_start (last trajectory)) / 1000000 * (3 / 2))
             (last trajectory) (ticks env) \<lparr>error_code = 0, error_string = []\<rparr>
             (add_call (setAccepted (curr_gh s)) s)
      else if kill_on_hang s
      then Exited (add_call (setAborted (curr_gh s) \<lparr>error_code = - 100, error_string = ''Robot has hung. ''\<rparr>)
                    (add_call (setAccepted (curr_gh s)) s))
      else smooth_completion
             (start_time env + real_of_int (time_from_start (last trajectory)) / 1000000 * (3 / 2))
             (last trajectory) (ticks env) \<lparr>error_code = - 100, error_string = ''Robot has hung. ''\<rparr>
             (add_call (setAborted (curr_gh s) \<lparr>error_code = - 100, error_string = ''Robot has hung. ''\<rparr>)
               (add_call (setAccepted (curr_gh s)) s)))"
  using assms by (simp add: execute_goal_def Let_def hang_result_def)

lemma move_trajectory:
  "translate_trajectory ((executing move_goal)\<lparr>kill_on_hang := k\<rparr>) (getGoal move_goal)
   = Inr [\<lparr>positions = zeros, velocities = zeros, time_from_start = 0\<rparr>,
          \<lparr>positions = ones, velocities = zeros, time_from_start = 2000000\<rparr>]"
  by (simp add: translate_trajectory_def executing_def move_goal_def reorderMap_def idle_server_def
      ur_joints_def translate_point_def replicate_six at_time_def zeros_def ones_def convert_def
      t0_points_def)

text \<open>
  The timed branch after a false return of the follower: the abort is the last call for the
  goal, and the thread exits or releases the lock.
\<close>

lemma execute_goal_timed_hang:
  assumes "translate_trajectory s (getGoal (curr_gh s)) = Inr trajectory"
    and "\<not> use_smooth_trajectory s" and "\<not> follower_ok env"
  shows "execute_goal env s =
     (if kill_on_hang s
      then Exited (s\<lparr>calls := calls s @ [setAccepted (curr_gh s),
                      setAborted (curr_gh s) \<lparr>error_code = - 100, error_string = ''Robot has hung. ''\<rparr>]\<rparr>)
      else Unlocked (s\<lparr>calls := calls s @ [setAccepted (curr_gh s),
                      setAborted (curr_gh s) \<lparr>error_code = - 100, error_string = ''Robot has hung. ''\<rparr>],
                        has_goal := False, tj_mutex := False\<rparr>))"
  using assms by (simp add: execute_goal_def Let_def hang_result_def) (simp add: add_call_def)

text \<open>
  C4. Smooth mode, kill-on-hang disabled, the goal \<open>move_goal\<close> in execution. The follower
  returns false; the only pass of the polling loop, 0.2 s after the start, sees the arm at
  rest at the final waypoint. The thread reports the goal aborted (``Robot has hung. '') and
  then reports the same goal succeeded: after the abort the smooth branch goes on into the
  polling loop, where the timed branch releases the lock.
\<close>

theorem hang_then_succeeded:
  "execute_goal \<lparr>follower_ok = False, interrupted = False, start_time = 0,
                 ticks = [observed (1 / 5) ones zeros]\<rparr>
     ((executing move_goal)\<lparr>kill_on_hang := False\<rparr>)
   = Unlocked ((executing move_goal)
       \<lparr>kill_on_hang := False, has_goal := False, tj_mutex := False,
        calls := [setAccepted move_goal,
                  setAborted move_goal \<lparr>error_code = - 100, error_string = ''Robot has hung. ''\<rparr>,
                  setSucceeded move_goal \<lparr>error_code = SUCCESSFUL, error_string = ''Robot has hung. ''\<rparr>]\<rparr>)"
proof -
  let ?s = "(executing move_goal)\<lparr>kill_on_hang := False\<rparr>"
  have cg: "curr_gh ?s = move_goal" "use_smooth_trajectory ?s"
    by (simp_all add: executing_def idle_server_def)
  have p: "poll 3 \<lparr>positions = ones, velocities = zeros, time_from_start = 2000000\<rparr>
             [observed (1 / 5) ones zeros] = Some Reached"
    by (simp add: observed_def inMotion_def reachedGoal_def ones_def zeros_def)
  have tr: "translate_trajectory ?s (getGoal (curr_gh ?s))
      = Inr [\<lparr>positions = zeros, velocities = zeros, time_from_start = 0\<rparr>,
             \<lparr>positions = ones, velocities = zeros, time_from_start = 2000000\<rparr>]"
    using move_trajectory [of False] cg by simp
  show ?thesis
    unfolding execute_goal_smooth [OF tr cg(2)]
    by (simp add: cg smooth_completion_def p del: poll.simps)
      (simp add: add_call_def executing_def idle_server_def)
qed

text \<open>Passes that neither end the loop nor leave it are skipped.\<close>

lemma poll_prefix:
  assumes "\<forall>x\<in>set pre. (tick_now x < timeout \<or> inMotion (tick_qd x))
             \<and> \<not> (reachedGoal (tick_q x) g \<and> \<not> inMotion (tick_qd x)) \<and> \<not> tick_interrupt x"
  shows "poll timeout g (pre @ rest) = poll timeout g rest"
  using assms by (induction pre) auto

text \<open>
  C5, as the code has it. Smooth mode, the follower has returned true, and \<open>timeout\<close> is
  the start time plus 1.5 times the last point's time. Let the passes of the polling loop
  be \<open>pre\<close>, then \<open>y\<close>, then any others, where no pass up to \<open>y\<close> sees the arm within
  tolerance and at rest, no pass of \<open>pre\<close> sees the interrupt flag, every pass of \<open>pre\<close>
  is before the timeout or sees a joint moving, and \<open>y\<close> is at or after the timeout and sees
  no joint moving. Then the loop is still running after \<open>pre\<close> (however late its passes
  are, as long as a joint moves), and with \<open>y\<close> it ends in the abort ``Robot motion timed
  out or failed to reach goal.'' with code -100.
\<close>

theorem timeout_abort_waits_for_rest:
  assumes tr: "translate_trajectory s (getGoal (curr_gh s)) = Inr trajectory"
    and smooth: "use_smooth_trajectory s"
    and ok: "follower_ok env"
    and timeout: "timeout = start_time env + real_of_int (time_from_start (last trajectory)) / 1000000 * (3 / 2)"
    and never: "\<forall>x\<in>set (pre @ [y]). \<not> (reachedGoal (tick_q x) (last trajectory) \<and> \<not> inMotion (tick_qd x))"
    and noint: "\<forall>x\<in>set pre. \<not> tick_interrupt x"
    and early: "\<forall>x\<in>set pre. tick_now x < timeout \<or> inMotion (tick_qd x)"
    and late: "timeout \<le> tick_now y" "\<not> inMotion (tick_qd y)"
  shows "execute_goal (env\<lparr>ticks := pre\<rparr>) s = Polling (add_call (setAccepted (curr_gh s)) s)
    \<and> execute_goal (env\<lparr>ticks := pre @ y # rest\<rparr>) s =
        Unlocked (s\<lparr>calls := calls s @ [setAccepted (curr_gh s),
                      setAborted (curr_gh s)
                        \<lparr>error_code = - 100,
                         error_string = ''Robot motion timed out or failed to reach goal.''\<rparr>],
                    has_goal := False, tj_mutex := False\<rparr>)"
proof -
  let ?g = "last trajectory"
  have pre: "\<forall>x\<in>set pre. (tick_now x < timeout \<or> inMotion (tick_qd x))
             \<and> \<not> (reachedGoal (tick_q x) ?g \<and> \<not> inMotion (tick_qd x)) \<and> \<not> tick_interrupt x"
    using never noint early by simp
  have p1: "poll timeout ?g pre = None"
    using poll_prefix [OF pre, of "[]"] by simp
  have p2: "poll timeout ?g (pre @ y # rest) = Some TimedOut"
    using poll_prefix [OF pre, of "y # rest"] late by simp
  show ?thesis
    unfolding execute_goal_smooth [OF tr smooth]
    using ok p1 p2 timeout by (simp add: smooth_completion_def add_call_def del: poll.simps)
qed

text \<open>
  An instance: the passes at 0.2 s and 3.5 s see the first joint moving, the pass at 4 s
  sees the arm at rest away from the goal; the timeout is at 3 s.
\<close>

theorem timeout_abort_waits_for_rest_witness:
  "execute_goal \<lparr>follower_ok = True, interrupted = False, start_time = 0,
                 ticks = [observed (1 / 5) zeros drifting, observed (7 / 2) zeros drifting]\<rparr>
     (executing move_goal)
   = Polling (add_call (setAccepted move_goal) (executing move_goal))
   \<and> execute_goal \<lparr>follower_ok = True, interrupted = False, start_time = 0,
                 ticks = [observed (1 / 5) zeros drifting, observed (7 / 2) zeros drifting,
                          observed 4 zeros zeros]\<rparr>
     (executing move_goal)
   = Unlocked ((executing move_goal)
       \<lparr>calls := [setAccepted move_goal,
                  setAborted move_goal
                    \<lparr>error_code = - 100,
                     error_string = ''Robot motion timed out or failed to reach goal.''\<rparr>],
        has_goal := False, tj_mutex := False\<rparr>)"
proof -
  let ?s = "executing move_goal"
  let ?env = "\<lparr>follower_ok = True, interrupted = False, start_time = 0, ticks = []\<rparr>"
  let ?traj = "[\<lparr>positions = zeros, velocities = zeros, time_from_start = 0\<rparr>,
                \<lparr>positions = ones, velocities = zeros, time_from_start = 2000000\<rparr>]"
  let ?pre = "[observed (1 / 5) zeros drifting, observed (7 / 2) zeros drifting]"
  have cg: "curr_gh ?s = move_goal" "use_smooth_trajectory ?s" "calls ?s = []"
    by (simp_all add: executing_def idle_server_def)
  have tr: "translate_trajectory ?s (getGoal (curr_gh ?s)) = Inr ?traj"
    using move_trajectory [of True] cg by (simp add: executing_def idle_server_def)
  have ok: "follower_ok ?env" by simp
  have timeout: "(3::real) = start_time ?env + real_of_int (time_from_start (last ?traj)) / 1000000 * (3 / 2)"
    by simp
  have never: "\<forall>x\<in>set (?pre @ [observed 4 zeros zeros]).
      \<not> (reachedGoal (tick_q x) (last ?traj) \<and> \<not> inMotion (tick_qd x))"
    by (simp add: observed_def reachedGoal_def inMotion_def zeros_def ones_def drifting_def)
  have noint: "\<forall>x\<in>set ?pre. \<not> tick_interrupt x"
    by (simp add: observed_def)
  have early: "\<forall>x\<in>set ?pre. tick_now x < 3 \<or> inMotion (tick_qd x)"
    by (simp add: observed_def inMotion_def drifting_def)
  have late: "3 \<le> tick_now (observed 4 zeros zeros)" "\<not> inMotion (tick_qd (observed 4 zeros zeros))"
    by (simp_all add: observed_def inMotion_def zeros_def)
  show ?thesis
    using timeout_abort_waits_for_rest [OF tr cg(2) ok timeout never noint early late, of "[]"]
    by (simp add: cg)
qed

text \<open>
  C5, as the claim states it, fails: the goal's last point is at 2 s, so the bound is 3 s.
  The arm never comes within tolerance of the final waypoint, its first joint keeps moving,
  and the passes at 3 s and at 10 s, at and long after the bound, leave the loop running:
  no abort is reported.
\<close>

theorem moving_arm_never_times_out:
  "execute_goal \<lparr>follower_ok = True, interrupted = False, start_time = 0,
                 ticks = [observed (1 / 5) zeros drifting, observed 2 zeros drifting,
                          observed 3 zeros drifting, observed 10 zeros drifting]\<rparr>
     (executing move_goal)
   = Polling (add_call (setAccepted move_goal) (executing move_goal))
   \<and> \<not> reachedGoal zeros \<lparr>positions = ones, velocities = zeros, time_from_start = 2000000\<rparr>"
proof -
  let ?s = "executing move_goal"
  have cg: "curr_gh ?s = move_goal" "use_smooth_trajectory ?s"
    by (simp_all add: executing_def idle_server_def)
  have p: "poll 3 \<lparr>positions = ones, velocities = zeros, time_from_start = 2000000\<rparr>
             [observed (1 / 5) zeros drifting, observed 2 zeros drifting,
              observed 3 zeros drifting, observed 10 zeros drifting] = None"
    by (simp add: observed_def inMotion_def reachedGoal_def ones_def zeros_def drifting_def)
  have r: "\<not> reachedGoal zeros \<lparr>positions = ones, velocities = zeros, time_from_start = 2000000\<rparr>"
    by (simp add: reachedGoal_def ones_def zeros_def)
  have tr: "translate_trajectory ?s (getGoal (curr_gh ?s))
      = Inr [\<lparr>positions = zeros, velocities = zeros, time_from_start = 0\<rparr>,
             \<lparr>positions = ones, velocities = zeros, time_from_start = 2000000\<rparr>]"
    using move_trajectory [of True] cg by (simp add: executing_def idle_server_def)
  show ?thesis
    unfolding execute_goal_smooth [OF tr cg(2)]
    using r by (simp add: cg smooth_completion_def p del: poll.simps)
qed

section \<open>Facts about the parsers\<close>

text \<open>
  C10. For every parser state: \<open>URStateParser::parse\<close> returns the null pointer when the
  message type read after the packet size is not \<open>ROBOT_STATE\<close>;
  \<open>URRTStateParser::parse\<close> and \<open>URMessageParser::parse\<close> return the null pointer when
  \<open>check_size\<close> of the peeked packet size fails (the buffer is shorter than the packet
  declares); and when \<open>URMessageParser::parse\<close> returns a packet, the size check has
  passed, the message type is \<open>ROBOT_MESSAGE\<close>, the robot message type read after the
  timestamp and the source is \<open>ROBOT_MESSAGE_VERSION\<close>, and the packet is the one the
  version message's \<open>parse_with\<close> produced from the rest.
\<close>

theorem parsers_reject_malformed:
  "(fst (parse_type P (snd (parse_int32 P bp))) \<noteq> ROBOT_STATE P
      \<longrightarrow> fst (URStateParser_parse P state_parse_with bp) = None)
   \<and> (\<not> check_size P bp (peek_int32 P bp)
      \<longrightarrow> fst (URRTStateParser_parse P rt_parse_with bp) = None
        \<and> fst (URMessageParser_parse P version_parse_with bp) = None)
   \<and> (fst (URMessageParser_parse P version_parse_with bp) = Some pkt
      \<longrightarrow> check_size P bp (peek_int32 P bp)
        \<and> fst (parse_type P (snd (parse_int32 P bp))) = ROBOT_MESSAGE P
        \<and> (let bp2 = snd (parse_type P (snd (parse_int32 P bp)));
                bp4 = snd (parse_uint8 P (snd (parse_uint64 P bp2)))
            in fst (parse_robot_message_type P bp4) = ROBOT_MESSAGE_VERSION P
               \<and> fst (version_parse_with (snd (parse_robot_message_type P bp4))) = Some pkt))"
  by (auto simp: URStateParser_parse_def URRTStateParser_parse_def URMessageParser_parse_def Let_def
      split: prod.splits if_splits)

text \<open>
  Instances: a state parser given a message of type 20; the two size-checking parsers given
  buffers shorter than the sizes they declare (9 and 99); and a well-formed version message.
\<close>

theorem parsers_reject_malformed_witness:
  "fst (URStateParser_parse byte_parser payload [0, 0, 0, 6, 20, 7]) = None
   \<and> fst (URRTStateParser_parse byte_parser payload [0, 0, 0, 9, 1, 2]) = None
   \<and> fst (URMessageParser_parse byte_parser payload [0, 0, 0, 99, 20]) = None
   \<and> fst (URMessageParser_parse byte_parser payload
            [0, 0, 0, 16, 20, 0, 0, 0, 0, 0, 0, 0, 1, 254, 3, 85]) = Some [85]"
proof -
  have a: "fst (URStateParser_parse byte_parser payload [0, 0, 0, 6, 20, 7]) = None"
    using parsers_reject_malformed [where P = byte_parser and bp = "[0, 0, 0, 6, 20, 7]"
        and state_parse_with = payload and rt_parse_with = payload
        and version_parse_with = payload and pkt = "[]"]
    by (simp add: byte_parser_def)
  have b: "fst (URRTStateParser_parse byte_parser payload [0, 0, 0, 9, 1, 2]) = None"
    using parsers_reject_malformed [where P = byte_parser and bp = "[0, 0, 0, 9, 1, 2]"
        and state_parse_with = payload and rt_parse_with = payload
        and version_parse_with = payload and pkt = "[]"]
    by (simp add: byte_parser_def)
  have c: "fst (URMessageParser_parse byte_parser payload [0, 0, 0, 99, 20]) = None"
    using parsers_reject_malformed [where P = byte_parser and bp = "[0, 0, 0, 99, 20]"
        and state_parse_with = payload and rt_parse_with = payload
        and version_parse_with = payload and pkt = "[]"]
    by (simp add: byte_parser_def)
  have d: "fst (URMessageParser_parse byte_parser payload
            [0, 0, 0, 16, 20, 0, 0, 0, 0, 0, 0, 0, 1, 254, 3, 85]) = Some [85]"
    by (simp add: URMessageParser_parse_def byte_parser_def payload_def)
  show ?thesis using a b c d by blast
qed

section \<open>Facts about the two threads together\<close>

lemma aborted_mono: "aborted a cs \<Longrightarrow> aborted a (cs @ ds)"
  by (auto simp: aborted_def)

lemma ordered_snoc:
  "ordered a b (cs @ [c]) = (ordered a b cs \<and> (c = setAccepted b \<longrightarrow> aborted a cs))"
proof
  assume o: "ordered a b (cs @ [c])"
  have "ordered a b cs"
    unfolding ordered_def
  proof (intro allI impI)
    fix pre post
    assume "cs = pre @ setAccepted b # post"
    then have "cs @ [c] = pre @ setAccepted b # (post @ [c])" by simp
    then show "aborted a pre" using o unfolding ordered_def by blast
  qed
  moreover have "c = setAccepted b \<longrightarrow> aborted a cs"
  proof
    assume "c = setAccepted b"
    then have "cs @ [c] = cs @ setAccepted b # []" by simp
    then show "aborted a cs" using o unfolding ordered_def by blast
  qed
  ultimately show "ordered a b cs \<and> (c = setAccepted b \<longrightarrow> aborted a cs)" by blast
next
  assume h: "ordered a b cs \<and> (c = setAccepted b \<longrightarrow> aborted a cs)"
  show "ordered a b (cs @ [c])"
    unfolding ordered_def
  proof (intro allI impI)
    fix pre post
    assume e: "cs @ [c] = pre @ setAccepted b # post"
    show "aborted a pre"
    proof (cases post rule: rev_cases)
      case Nil
      then have "cs = pre" "c = setAccepted b" using e by simp_all
      then show ?thesis using h by simp
    next
      case (snoc post' x)
      then have "cs = pre @ setAccepted b # post'" using e by simp
      then show ?thesis using h unfolding ordered_def by blast
    qed
  qed
qed

lemma ordered_fresh: "setAccepted b \<notin> set cs \<Longrightarrow> ordered a b cs"
  by (auto simp: ordered_def)

lemma execute_goal_calls:
  assumes "execute_goal env s = Unlocked s' \<or> execute_goal env s = Exited s'
           \<or> execute_goal env s = Polling s'"
  shows "\<exists>cs. calls s' = calls s @ setAccepted (curr_gh s) # cs \<and> (\<forall>h. setAccepted h \<notin> set cs)"
  using assms
  by (auto simp: execute_goal_def smooth_completion_def add_call_def Let_def hang_result_def
      split: sum.splits if_splits option.splits poll_end.splits)

lemma body_calls_accept:
  "setAccepted h \<in> set (body_calls env sh) \<Longrightarrow> h = curr_gh sh"
proof (cases "execute_goal env sh")
  case (Faulted e)
  then show "setAccepted h \<in> set (body_calls env sh) \<Longrightarrow> h = curr_gh sh"
    by (simp add: body_calls_def)
next
  case (Exited sh')
  then obtain cs where "calls sh' = calls sh @ setAccepted (curr_gh sh) # cs" "\<forall>h. setAccepted h \<notin> set cs"
    using execute_goal_calls [of env sh sh'] by blast
  then show "setAccepted h \<in> set (body_calls env sh) \<Longrightarrow> h = curr_gh sh"
    using Exited by (auto simp: body_calls_def new_calls_def)
next
  case (Polling sh')
  then obtain cs where "calls sh' = calls sh @ setAccepted (curr_gh sh) # cs" "\<forall>h. setAccepted h \<notin> set cs"
    using execute_goal_calls [of env sh sh'] by blast
  then show "setAccepted h \<in> set (body_calls env sh) \<Longrightarrow> h = curr_gh sh"
    using Polling by (auto simp: body_calls_def new_calls_def)
next
  case (Unlocked sh')
  then obtain cs where "calls sh' = calls sh @ setAccepted (curr_gh sh) # cs" "\<forall>h. setAccepted h \<notin> set cs"
    using execute_goal_calls [of env sh sh'] by blast
  then show "setAccepted h \<in> set (body_calls env sh) \<Longrightarrow> h = curr_gh sh"
    using Unlocked by (auto simp: body_calls_def new_calls_def)
qed


lemmas pc_defs = adm_locked_def exe_locked_def pending_def trying_def unaborted_def

text \<open>Steps that leave the lock, the current goal, the calls and the history as they are.\<close>

lemma good_relabel:
  assumes "good ow a e cur cs su rf"
    and "adm_locked a' = adm_locked a"
    and "\<And>b. pending a' = Some b \<Longrightarrow> pending a = Some b"
    and "trying a' = None"
    and "unaborted a' = unaborted a"
  shows "good ow a' e cur cs su rf"
  using assms unfolding good_def by auto

lemma good_call:
  assumes "good ow a e cur cs su rf"
    and "\<And>h. c \<noteq> setAccepted h"
    and "adm_locked a' = adm_locked a"
    and "\<And>b. pending a' = Some b \<Longrightarrow> pending a = Some b"
    and "trying a' = None"
    and "unaborted a' = unaborted a"
  shows "good ow a' e cur (cs @ [c]) su rf"
  using assms unfolding good_def by (auto simp: ordered_snoc aborted_mono)


lemma executing_locked: "executing_at e = Some g \<Longrightarrow> exe_locked e"
  by (cases e) (simp_all add: exe_locked_def)

lemma unaborted_pending: "unaborted a = Some b \<Longrightarrow> pending a = Some b"
  by (cases a) (simp_all add: unaborted_def pending_def)

lemma trying_pending: "trying a = Some b \<Longrightarrow> pending a = Some b"
  by (cases a) (simp_all add: trying_def pending_def)

lemma good_acquire:
  assumes "good None a e cur cs su rf"
    and "adm_locked a'"
    and "\<And>b. pending a' = Some b \<Longrightarrow> pending a = Some b"
    and "trying a' = None"
    and "unaborted a' = unaborted a"
  shows "good (Some Admission) a' e cur cs su rf"
  using assms unfolding good_def by auto

lemma good_release:
  assumes "good (Some Admission) a e cur cs su rf"
    and "\<not> adm_locked a'"
    and "\<And>b. pending a' = Some b \<Longrightarrow> pending a = Some b"
    and "trying a' = None"
    and "unaborted a' = unaborted a"
  shows "good None a' e cur cs su rf"
  using assms unfolding good_def by auto

lemma good_refuse:
  assumes "good ow (A_try gh res) e cur cs su rf"
  shows "good ow (A_flag gh res) e cur cs su (rf @ [(gh, cur)])"
  using assms unfolding good_def by (auto simp: pc_defs ordered_fresh)

lemma aborted_snoc:
  "aborted a (cs @ [c]) =
     (aborted a cs \<or> (\<exists>r. c = setAborted a r \<and> error_string r = ''Received another trajectory''))"
  by (auto simp: aborted_def)

lemma good_abort:
  assumes "good ow (A_abort gh res) e cur cs su rf"
    and "error_string r = ''Received another trajectory''"
  shows "good ow (A_lock gh) e cur (cs @ [setAborted cur r]) su rf"
proof -
  have pair: "\<And>b c. (b, c) \<in> set rf \<Longrightarrow> aborted c (cs @ [setAborted cur r])"
  proof -
    fix b c
    assume p: "(b, c) \<in> set rf"
    show "aborted c (cs @ [setAborted cur r])"
    proof (cases "gh = b")
      case True
      then have "cur = c" using assms(1) p unfolding good_def by (auto simp: pc_defs)
      then show ?thesis using assms(2) by (simp add: aborted_snoc)
    next
      case False
      then have "aborted c cs" using assms(1) p unfolding good_def by (auto simp: pc_defs)
      then show ?thesis by (simp add: aborted_snoc)
    qed
  qed
  show ?thesis
    using assms(1) pair unfolding good_def
    by (auto simp: pc_defs ordered_snoc)
qed

lemma good_install:
  assumes "good (Some Admission) (A_install gh) e cur cs su rf"
  shows "good (Some Admission) (A_clear gh) e gh cs su rf"
proof -
  have "\<not> exe_locked e" using assms unfolding good_def by simp
  then have "executing_at e = None" using executing_locked [of e] by (cases "executing_at e") auto
  then show ?thesis using assms unfolding good_def by (auto simp: pc_defs)
qed

lemma good_goal:
  assumes "good ow A_idle e cur cs su rf" and "gh \<notin> set su"
  shows "good ow (A_try gh res) e cur cs (su @ [gh]) rf"
  using assms unfolding good_def by (auto simp: pc_defs)

lemma good_reject:
  assumes "good ow A_idle e cur cs su rf"
  shows "good ow A_idle e cur (cs @ [setRejected gh r]) (su @ [gh]) rf"
  using assms unfolding good_def by (auto simp: pc_defs ordered_snoc aborted_mono)

lemma good_exe_lock:
  assumes "good None a E_top cur cs su rf"
  shows "good (Some Execution) a E_wait cur cs su rf"
  using assms unfolding good_def by (auto simp: exe_locked_def)

lemma good_exe_stop:
  assumes "good ow a E_top cur cs su rf"
  shows "good ow a E_stopped cur cs su rf"
  using assms unfolding good_def by (auto simp: exe_locked_def)

lemma good_exe_run:
  assumes "good ow a E_wait cur cs su rf" and "\<And>h. setAccepted h \<in> set ds \<Longrightarrow> h = cur"
  shows "good ow a (E_run cur ds x) cur cs su rf"
  using assms unfolding good_def by (auto simp: exe_locked_def)

lemma good_exe_idle:
  assumes "good (Some Execution) a E_wait cur cs su rf"
  shows "good None a E_top cur cs su rf"
  using assms unfolding good_def by (auto simp: exe_locked_def)

lemma good_exe_emit:
  assumes "good ow a (E_run g (c # ds) x) cur cs su rf"
  shows "good ow a (E_run g ds x) cur (cs @ [c]) su rf"
proof -
  have cur: "cur = g" using assms unfolding good_def by simp
  have acc: "\<And>h. c = setAccepted h \<Longrightarrow> h = cur" using assms cur unfolding good_def by simp
  have pair: "\<And>b d. (b, d) \<in> set rf \<Longrightarrow> c = setAccepted b \<Longrightarrow> aborted d cs"
  proof -
    fix b d
    assume p: "(b, d) \<in> set rf" and c: "c = setAccepted b"
    then have b: "b = cur" using acc by simp
    have "unaborted a \<noteq> Some b"
      using assms b unaborted_pending [of a b] unfolding good_def by auto
    then show "aborted d cs" using assms p unfolding good_def by auto
  qed
  show ?thesis
    using assms acc pair unfolding good_def
    by (auto simp: exe_locked_def ordered_snoc aborted_mono)
qed

lemma good_exe_end:
  assumes "good ow a (E_run g [] x) cur cs su rf"
  shows "good ow a (E_unlock g) cur cs su rf"
  using assms unfolding good_def by (auto simp: exe_locked_def)

lemma good_exe_exit:
  assumes "good ow a (E_run g [] x) cur cs su rf"
  shows "good ow a E_exited cur cs su rf"
  using assms unfolding good_def by (auto simp: exe_locked_def)

lemma good_exe_unlock:
  assumes "good (Some Execution) a (E_unlock g) cur cs su rf"
  shows "good None a E_top cur cs su rf"
  using assms unfolding good_def by (auto simp: exe_locked_def)


lemma inv_adm:
  assumes i: "invariant s" and st: "adm_step s = Some s'"
  shows "invariant s'"
proof -
  have g: "good (owner s) (adm s) (exe s) (curr_gh (shared s)) (calls (shared s)) (submitted s) (refused s)"
    using i by (simp add: invariant_def)
  show ?thesis
  proof (cases "adm s")
    case A_idle
    then show ?thesis using st by (simp add: adm_step_def)
  next
    case (A_try gh res)
    show ?thesis
    proof (cases "running (shared s)")
      case False
      then have s': "s' = (upd (add_call (setRejected gh (res\<lparr>error_string := ''Internal error''\<rparr>))) s)
                             \<lparr>adm := A_idle\<rparr>"
        using st A_try by (simp add: adm_step_def)
      have "good (owner s) A_idle (exe s) (curr_gh (shared s))
              (calls (shared s) @ [setRejected gh (res\<lparr>error_string := ''Internal error''\<rparr>)])
              (submitted s) (refused s)"
        by (rule good_call [OF g]) (simp_all add: A_try pc_defs)
      then show ?thesis unfolding s' by (simp add: invariant_def upd_def add_call_def)
    next
      case run: True
      show ?thesis
      proof (cases "owner s")
        case None
        then have s': "s' = (lock Admission s)\<lparr>adm := A_install gh\<rparr>"
          using st A_try run by (simp add: adm_step_def)
        have "good (Some Admission) (A_install gh) (exe s) (curr_gh (shared s)) (calls (shared s)) (submitted s) (refused s)"
          by (rule good_acquire [OF g [unfolded None]]) (simp_all add: A_try pc_defs)
        then show ?thesis unfolding s' by (simp add: invariant_def lock_def)
      next
        case (Some t)
        then have s': "s' = s\<lparr>adm := A_flag gh res,
                                refused := refused s @ [(gh, curr_gh (shared s))]\<rparr>"
          using st A_try run by (simp add: adm_step_def)
        have "good (owner s) (A_flag gh res) (exe s) (curr_gh (shared s)) (calls (shared s))
                (submitted s) (refused s @ [(gh, curr_gh (shared s))])"
          by (rule good_refuse [OF g [unfolded A_try]])
        then show ?thesis unfolding s' by (simp add: invariant_def)
      qed
    qed
  next
    case (A_flag gh res)
    then have s': "s' = (upd (\<lambda>sh. sh\<lparr>interrupt_traj := True\<rparr>) s)\<lparr>adm := A_abort gh res\<rparr>"
      using st by (simp add: adm_step_def)
    have "good (owner s) (A_abort gh res) (exe s) (curr_gh (shared s)) (calls (shared s)) (submitted s) (refused s)"
      by (rule good_relabel [OF g]) (simp_all add: A_flag pc_defs)
    then show ?thesis unfolding s' by (simp add: invariant_def upd_def)
  next
    case (A_abort gh res)
    then have s': "s' = (upd (\<lambda>sh. add_call (setAborted (curr_gh sh)
                                 (res\<lparr>error_string := ''Received another trajectory''\<rparr>)) sh) s)
                           \<lparr>adm := A_lock gh\<rparr>"
      using st by (simp add: adm_step_def)
    have "good (owner s) (A_lock gh) (exe s) (curr_gh (shared s))
            (calls (shared s) @ [setAborted (curr_gh (shared s))
                                   (res\<lparr>error_string := ''Received another trajectory''\<rparr>)])
            (submitted s) (refused s)"
      by (rule good_abort [OF g [unfolded A_abort]]) simp
    then show ?thesis unfolding s' by (simp add: invariant_def upd_def add_call_def)
  next
    case (A_lock gh)
    then have ow: "owner s = None" and s': "s' = (lock Admission s)\<lparr>adm := A_sleep gh\<rparr>"
      using st by (simp_all add: adm_step_def split: if_splits)
    have "good (Some Admission) (A_sleep gh) (exe s) (curr_gh (shared s)) (calls (shared s)) (submitted s) (refused s)"
      by (rule good_acquire [OF g [unfolded ow]]) (simp_all add: A_lock pc_defs)
    then show ?thesis unfolding s' by (simp add: invariant_def lock_def)
  next
    case (A_sleep gh)
    then have s': "s' = s\<lparr>adm := A_install gh\<rparr>"
      using st by (simp add: adm_step_def)
    have "good (owner s) (A_install gh) (exe s) (curr_gh (shared s)) (calls (shared s)) (submitted s) (refused s)"
      by (rule good_relabel [OF g]) (simp_all add: A_sleep pc_defs)
    then show ?thesis unfolding s' by (simp add: invariant_def upd_def)
  next
    case (A_install gh)
    then have s': "s' = (upd (\<lambda>sh. sh\<lparr>curr_gh := gh\<rparr>) s)\<lparr>adm := A_clear gh\<rparr>"
      using st by (simp add: adm_step_def)
    have ow: "owner s = Some Admission"
      using g A_install by (simp add: good_def pc_defs)
    have "good (Some Admission) (A_clear gh) (exe s) gh (calls (shared s)) (submitted s) (refused s)"
      by (rule good_install [OF g [unfolded ow A_install]])
    then show ?thesis unfolding s' using ow by (simp add: invariant_def upd_def)
  next
    case (A_clear gh)
    then have s': "s' = (upd (\<lambda>sh. sh\<lparr>interrupt_traj := False\<rparr>) s)\<lparr>adm := A_mark gh\<rparr>"
      using st by (simp add: adm_step_def)
    have "good (owner s) (A_mark gh) (exe s) (curr_gh (shared s)) (calls (shared s)) (submitted s) (refused s)"
      by (rule good_relabel [OF g]) (simp_all add: A_clear pc_defs)
    then show ?thesis unfolding s' by (simp add: invariant_def upd_def)
  next
    case (A_mark gh)
    then have s': "s' = (upd (\<lambda>sh. sh\<lparr>has_goal := True\<rparr>) s)\<lparr>adm := A_unlock\<rparr>"
      using st by (simp add: adm_step_def)
    have "good (owner s) (A_unlock) (exe s) (curr_gh (shared s)) (calls (shared s)) (submitted s) (refused s)"
      by (rule good_relabel [OF g]) (simp_all add: A_mark pc_defs)
    then show ?thesis unfolding s' by (simp add: invariant_def upd_def)
  next
    case A_unlock
    then have s': "s' = (unlock s)\<lparr>adm := A_notify\<rparr>"
      using st by (simp add: adm_step_def)
    have ow: "owner s = Some Admission"
      using g A_unlock by (simp add: good_def pc_defs)
    have "good None (A_notify) (exe s) (curr_gh (shared s)) (calls (shared s)) (submitted s) (refused s)"
      by (rule good_release [OF g [unfolded ow]]) (simp_all add: A_unlock pc_defs)
    then show ?thesis unfolding s' by (simp add: invariant_def unlock_def)
  next
    case A_notify
    then have s': "s' = s\<lparr>adm := A_idle\<rparr>"
      using st by (simp add: adm_step_def)
    have "good (owner s) (A_idle) (exe s) (curr_gh (shared s)) (calls (shared s)) (submitted s) (refused s)"
      by (rule good_relabel [OF g]) (simp_all add: A_notify pc_defs)
    then show ?thesis unfolding s' by (simp add: invariant_def upd_def)
  next
    case (R_check st')
    then have s': "s' = s\<lparr>adm := A_idle\<rparr> \<or> s' = s\<lparr>adm := R_try\<rparr>"
      using st by (auto simp add: adm_step_def split: if_splits)
    have "good (owner s) A_idle (exe s) (curr_gh (shared s)) (calls (shared s)) (submitted s) (refused s)"
      by (rule good_relabel [OF g]) (simp_all add: R_check pc_defs)
    moreover have "good (owner s) R_try (exe s) (curr_gh (shared s)) (calls (shared s)) (submitted s) (refused s)"
      by (rule good_relabel [OF g]) (simp_all add: R_check pc_defs)
    ultimately show ?thesis using s' by (auto simp add: invariant_def)
  next
    case R_try
    show ?thesis
    proof (cases "owner s")
      case None
      then have s': "s' = (lock Admission s)\<lparr>adm := R_free\<rparr>"
        using st R_try by (simp add: adm_step_def)
      have "good (Some Admission) R_free (exe s) (curr_gh (shared s)) (calls (shared s)) (submitted s) (refused s)"
        by (rule good_acquire [OF g [unfolded None]]) (simp_all add: R_try pc_defs)
      then show ?thesis unfolding s' by (simp add: invariant_def lock_def)
    next
      case (Some t)
      then have s': "s' = s\<lparr>adm := R_flag\<rparr>"
        using st R_try by (simp add: adm_step_def)
      have "good (owner s) R_flag (exe s) (curr_gh (shared s)) (calls (shared s)) (submitted s) (refused s)"
        by (rule good_relabel [OF g]) (simp_all add: R_try pc_defs)
      then show ?thesis unfolding s' by (simp add: invariant_def)
    qed
  next
    case R_free
    then have s': "s' = (unlock s)\<lparr>adm := A_idle\<rparr>"
      using st by (simp add: adm_step_def)
    have ow: "owner s = Some Admission"
      using g R_free by (simp add: good_def pc_defs)
    have "good None (A_idle) (exe s) (curr_gh (shared s)) (calls (shared s)) (submitted s) (refused s)"
      by (rule good_release [OF g [unfolded ow]]) (simp_all add: R_free pc_defs)
    then show ?thesis unfolding s' by (simp add: invariant_def unlock_def)
  next
    case R_flag
    then have s': "s' = (upd (\<lambda>sh. sh\<lparr>interrupt_traj := True\<rparr>) s)\<lparr>adm := R_lock\<rparr>"
      using st by (simp add: adm_step_def)
    have "good (owner s) (R_lock) (exe s) (curr_gh (shared s)) (calls (shared s)) (submitted s) (refused s)"
      by (rule good_relabel [OF g]) (simp_all add: R_flag pc_defs)
    then show ?thesis unfolding s' by (simp add: invariant_def upd_def)
  next
    case R_lock
    then have ow: "owner s = None" and s': "s' = (lock Admission s)\<lparr>adm := R_abort\<rparr>"
      using st by (simp_all add: adm_step_def split: if_splits)
    have "good (Some Admission) (R_abort) (exe s) (curr_gh (shared s)) (calls (shared s)) (submitted s) (refused s)"
      by (rule good_acquire [OF g [unfolded ow]]) (simp_all add: R_lock pc_defs)
    then show ?thesis unfolding s' by (simp add: invariant_def lock_def)
  next
    case R_abort
    then have s': "s' = (upd (\<lambda>sh. add_call (setAborted (curr_gh sh)
                                 \<lparr>error_code = - 100, error_string = ''Robot safety stop''\<rparr>) sh) s)
                           \<lparr>adm := R_unlock\<rparr>"
      using st by (simp add: adm_step_def)
    have "good (owner s) R_unlock (exe s) (curr_gh (shared s))
            (calls (shared s) @ [setAborted (curr_gh (shared s))
                                   \<lparr>error_code = - 100, error_string = ''Robot safety stop''\<rparr>])
            (submitted s) (refused s)"
      by (rule good_call [OF g]) (simp_all add: R_abort pc_defs)
    then show ?thesis unfolding s' by (simp add: invariant_def upd_def add_call_def)
  next
    case R_unlock
    then have s': "s' = (unlock s)\<lparr>adm := A_idle\<rparr>"
      using st by (simp add: adm_step_def)
    have ow: "owner s = Some Admission"
      using g R_unlock by (simp add: good_def pc_defs)
    have "good None (A_idle) (exe s) (curr_gh (shared s)) (calls (shared s)) (submitted s) (refused s)"
      by (rule good_release [OF g [unfolded ow]]) (simp_all add: R_unlock pc_defs)
    then show ?thesis unfolding s' by (simp add: invariant_def unlock_def)
  next
    case (C_lock gh)
    then have ow: "owner s = None" and s': "s' = (lock Admission s)\<lparr>adm := C_cancel gh\<rparr>"
      using st by (simp_all add: adm_step_def split: if_splits)
    have "good (Some Admission) (C_cancel gh) (exe s) (curr_gh (shared s)) (calls (shared s)) (submitted s) (refused s)"
      by (rule good_acquire [OF g [unfolded ow]]) (simp_all add: C_lock pc_defs)
    then show ?thesis unfolding s' by (simp add: invariant_def lock_def)
  next
    case (C_cancel gh)
    then have s': "s' = (upd (add_call (setCanceled gh \<lparr>error_code = - 100, error_string = ''Goal cancelled by client''\<rparr>)) s)\<lparr>adm := C_unlock\<rparr>"
      using st by (simp add: adm_step_def)
    have "good (owner s) (C_unlock) (exe s) (curr_gh (shared s))
            (calls (shared s) @ [setCanceled gh \<lparr>error_code = - 100, error_string = ''Goal cancelled by client''\<rparr>]) (submitted s) (refused s)"
      by (rule good_call [OF g]) (simp_all add: C_cancel pc_defs)
    then show ?thesis unfolding s' by (simp add: invariant_def upd_def add_call_def)
  next
    case C_unlock
    then have s': "s' = (unlock s)\<lparr>adm := A_idle\<rparr>"
      using st by (simp add: adm_step_def)
    have ow: "owner s = Some Admission"
      using g C_unlock by (simp add: good_def pc_defs)
    have "good None (A_idle) (exe s) (curr_gh (shared s)) (calls (shared s)) (submitted s) (refused s)"
      by (rule good_release [OF g [unfolded ow]]) (simp_all add: C_unlock pc_defs)
    then show ?thesis unfolding s' by (simp add: invariant_def unlock_def)
  qed
qed


lemma inv_telemetry: "invariant s \<Longrightarrow> telemetry_step q qd s = Some s' \<Longrightarrow> invariant s'"
  by (auto simp: invariant_def telemetry_step_def upd_def)

lemma inv_notify:
  assumes i: "invariant s" and st: "notify_step x s = Some s'"
  shows "invariant s'"
proof -
  have a: "adm s = A_idle" and s': "s' = (upd (\<lambda>sh. sh\<lparr>state := x\<rparr>) s)\<lparr>adm := R_check x\<rparr>"
    using st by (simp_all add: notify_step_def split: if_splits)
  have g: "good (owner s) (adm s) (exe s) (curr_gh (shared s)) (calls (shared s)) (submitted s) (refused s)"
    using i by (simp add: invariant_def)
  have "good (owner s) (R_check x) (exe s) (curr_gh (shared s)) (calls (shared s)) (submitted s) (refused s)"
    by (rule good_relabel [OF g]) (simp_all add: a pc_defs)
  then show ?thesis unfolding s' by (simp add: invariant_def upd_def)
qed

lemma inv_cancel:
  assumes i: "invariant s" and st: "cancel_step gh s = Some s'"
  shows "invariant s'"
proof -
  have a: "adm s = A_idle"
    and s': "s' = (upd (\<lambda>sh. sh\<lparr>interrupt_traj := True\<rparr>) s)\<lparr>adm := C_lock gh\<rparr>"
    using st by (simp_all add: cancel_step_def split: if_splits)
  have g: "good (owner s) (adm s) (exe s) (curr_gh (shared s)) (calls (shared s)) (submitted s) (refused s)"
    using i by (simp add: invariant_def)
  have "good (owner s) (C_lock gh) (exe s) (curr_gh (shared s)) (calls (shared s)) (submitted s) (refused s)"
    by (rule good_relabel [OF g]) (simp_all add: a pc_defs)
  then show ?thesis unfolding s' by (simp add: invariant_def upd_def)
qed

lemma inv_goal:
  assumes i: "invariant s" and st: "goal_step to_string gh s = Some s'"
  shows "invariant s'"
proof -
  have a: "adm s = A_idle" and fresh: "gh \<notin> set (submitted s)"
    using st by (simp_all add: goal_step_def split: if_splits)
  have g: "good (owner s) A_idle (exe s) (curr_gh (shared s)) (calls (shared s)) (submitted s) (refused s)"
    using i a by (simp add: invariant_def)
  obtain ok res where v: "validate to_string (shared s) gh \<lparr>error_code = - 100, error_string = []\<rparr> = (ok, res)"
    by (cases "validate to_string (shared s) gh \<lparr>error_code = - 100, error_string = []\<rparr>")
  show ?thesis
  proof (cases ok)
    case True
    then have s': "s' = s\<lparr>adm := A_try gh res, submitted := submitted s @ [gh]\<rparr>"
      using st a fresh v by (simp add: goal_step_def)
    have "good (owner s) (A_try gh res) (exe s) (curr_gh (shared s)) (calls (shared s))
            (submitted s @ [gh]) (refused s)"
      by (rule good_goal [OF g fresh])
    then show ?thesis unfolding s' by (simp add: invariant_def)
  next
    case False
    then have s': "s' = (upd (add_call (setRejected gh res)) s)\<lparr>submitted := submitted s @ [gh]\<rparr>"
      using st a fresh v by (simp add: goal_step_def)
    have "good (owner s) A_idle (exe s) (curr_gh (shared s)) (calls (shared s) @ [setRejected gh res])
            (submitted s @ [gh]) (refused s)"
      by (rule good_reject [OF g])
    then show ?thesis unfolding s' using a by (simp add: invariant_def upd_def add_call_def)
  qed
qed

lemma inv_exe:
  assumes i: "invariant s" and st: "exe_step env s = Some s'"
  shows "invariant s'"
proof -
  have g: "good (owner s) (adm s) (exe s) (curr_gh (shared s)) (calls (shared s)) (submitted s) (refused s)"
    using i by (simp add: invariant_def)
  show ?thesis
  proof (cases "exe s")
    case E_top
    show ?thesis
    proof (cases "running (shared s)")
      case False
      then have s': "s' = s\<lparr>exe := E_stopped\<rparr>"
        using st E_top by (simp add: exe_step_def)
      have "good (owner s) (adm s) E_stopped (curr_gh (shared s)) (calls (shared s)) (submitted s) (refused s)"
        by (rule good_exe_stop [OF g [unfolded E_top]])
      then show ?thesis unfolding s' by (simp add: invariant_def)
    next
      case True
      then have ow: "owner s = None" and s': "s' = (lock Execution s)\<lparr>exe := E_wait\<rparr>"
        using st E_top by (simp_all add: exe_step_def split: if_splits)
      have "good (Some Execution) (adm s) E_wait (curr_gh (shared s)) (calls (shared s)) (submitted s) (refused s)"
        by (rule good_exe_lock [OF g [unfolded E_top ow]])
      then show ?thesis unfolding s' by (simp add: invariant_def lock_def)
    qed
  next
    case E_wait
    have ow: "owner s = Some Execution"
      using g E_wait by (simp add: good_def exe_locked_def)
    show ?thesis
    proof (cases "running (shared s) \<and> has_goal (shared s)")
      case True
      then have s': "s' = s\<lparr>exe := E_run (curr_gh (shared s)) (body_calls env (shared s))
                                      (body_ends env (shared s))\<rparr>"
        using st E_wait by (simp add: exe_step_def)
      have "good (owner s) (adm s) (E_run (curr_gh (shared s)) (body_calls env (shared s))
               (body_ends env (shared s))) (curr_gh (shared s)) (calls (shared s)) (submitted s) (refused s)"
        by (rule good_exe_run [OF g [unfolded E_wait]]) (rule body_calls_accept)
      then show ?thesis unfolding s' by (simp add: invariant_def)
    next
      case False
      then have s': "s' = (unlock s)\<lparr>exe := E_top\<rparr>"
        using st E_wait by (auto simp add: exe_step_def)
      have "good None (adm s) E_top (curr_gh (shared s)) (calls (shared s)) (submitted s) (refused s)"
        by (rule good_exe_idle [OF g [unfolded E_wait ow]])
      then show ?thesis unfolding s' by (simp add: invariant_def unlock_def)
    qed
  next
    case (E_run gh cs e)
    show ?thesis
    proof (cases cs)
      case (Cons c cs')
      then have s': "s' = (upd (add_call c) s)\<lparr>exe := E_run gh cs' e\<rparr>"
        using st E_run by (simp add: exe_step_def)
      have "good (owner s) (adm s) (E_run gh cs' e) (curr_gh (shared s)) (calls (shared s) @ [c])
              (submitted s) (refused s)"
        by (rule good_exe_emit [OF g [unfolded E_run Cons]])
      then show ?thesis unfolding s' by (simp add: invariant_def upd_def add_call_def)
    next
      case Nil
      show ?thesis
      proof (cases e)
        case Ends
        then have s': "s' = (upd (\<lambda>sh. sh\<lparr>has_goal := False\<rparr>) s)\<lparr>exe := E_unlock gh\<rparr>"
          using st E_run Nil by (simp add: exe_step_def)
        have "good (owner s) (adm s) (E_unlock gh) (curr_gh (shared s)) (calls (shared s))
                (submitted s) (refused s)"
          by (rule good_exe_end [OF g [unfolded E_run Nil]])
        then show ?thesis unfolding s' by (simp add: invariant_def upd_def)
      next
        case Exits
        then have s': "s' = s\<lparr>exe := E_exited\<rparr>"
          using st E_run Nil by (simp add: exe_step_def)
        have "good (owner s) (adm s) E_exited (curr_gh (shared s)) (calls (shared s))
                (submitted s) (refused s)"
          by (rule good_exe_exit [OF g [unfolded E_run Nil]])
        then show ?thesis unfolding s' by (simp add: invariant_def)
      next
        case Hangs
        then show ?thesis using st E_run Nil by (simp add: exe_step_def)
      qed
    qed
  next
    case (E_unlock gh)
    then have s': "s' = (unlock s)\<lparr>exe := E_top\<rparr>"
      using st by (simp add: exe_step_def)
    have ow: "owner s = Some Execution"
      using g E_unlock by (simp add: good_def exe_locked_def)
    have "good None (adm s) E_top (curr_gh (shared s)) (calls (shared s)) (submitted s) (refused s)"
      by (rule good_exe_unlock [OF g [unfolded E_unlock ow]])
    then show ?thesis unfolding s' by (simp add: invariant_def unlock_def)
  next
    case E_exited
    then show ?thesis using st by (simp add: exe_step_def)
  next
    case E_stopped
    then show ?thesis using st by (simp add: exe_step_def)
  qed
qed

lemma inv_fire: "invariant s \<Longrightarrow> fire to_string a s = Some s' \<Longrightarrow> invariant s'"
  by (cases a)
    (auto simp: fire_def split: if_splits
      intro: inv_goal inv_notify inv_cancel inv_telemetry inv_adm inv_exe)

lemma inv_initial: "initial s \<Longrightarrow> invariant s"
  by (auto simp: initial_def invariant_def good_def pc_defs ordered_def)

lemma reachable_inv: "reachable to_string s \<Longrightarrow> invariant s"
  by (induction rule: reachable.induct) (auto intro: inv_initial inv_fire)

lemma run_reachable:
  "reachable to_string s \<Longrightarrow> run to_string as s = Some s' \<Longrightarrow> reachable to_string s'"
  by (induction as arbitrary: s) (auto split: option.splits intro: reachable.step)

text \<open>
  The history \<open>refused\<close> only grows, and what the invariant says of its pairs: the goal
  refused the lock is accepted, and is in execution, only after the abort of the goal that
  was current when the lock was refused.
\<close>

lemma adm_refused:
  "adm_step s = Some s' \<Longrightarrow> set (refused s) \<subseteq> set (refused s')"
  unfolding adm_step_def
  by (auto split: adm_pc.splits if_splits simp: upd_def lock_def unlock_def)

lemma exe_refused:
  "exe_step env s = Some s' \<Longrightarrow> refused s' = refused s"
  unfolding exe_step_def
  by (auto split: exe_pc.splits if_splits list.splits body_end.splits simp: upd_def lock_def unlock_def)

lemma goal_refused:
  "goal_step ts gh s = Some s' \<Longrightarrow> refused s' = refused s"
  unfolding goal_step_def
  by (auto split: if_splits prod.splits bool.splits simp: upd_def)

lemma fire_refused:
  "fire ts a s = Some s' \<Longrightarrow> set (refused s) \<subseteq> set (refused s')"
  unfolding fire_def
  by (auto split: if_splits action.splits dest: adm_refused exe_refused goal_refused
      simp: notify_step_def cancel_step_def telemetry_step_def upd_def)

lemma run_refused:
  "run ts as s = Some s' \<Longrightarrow> set (refused s) \<subseteq> set (refused s')"
proof (induction as arbitrary: s)
  case Nil
  then show ?case by simp
next
  case (Cons a as)
  then obtain t where f: "fire ts a s = Some t" and r: "run ts as t = Some s'"
    by (auto split: option.splits)
  show ?case using fire_refused [OF f] Cons.IH [OF r] by blast
qed


lemma refused_ordered:
  assumes "reachable ts s" and "(b, a) \<in> set (refused s)"
  shows "ordered a b (calls (shared s))"
    and "executing_goal s = Some b \<Longrightarrow> aborted a (calls (shared s))"
proof -
  have i: "good (owner s) (adm s) (exe s) (curr_gh (shared s)) (calls (shared s)) (submitted s) (refused s)"
    using reachable_inv [OF assms(1)] by (simp add: invariant_def)
  show "ordered a b (calls (shared s))"
    using i assms(2) unfolding good_def by blast
  show "aborted a (calls (shared s))" if e: "executing_goal s = Some b"
  proof -
    have cur: "curr_gh (shared s) = b"
      using i e unfolding good_def executing_goal_def by simp
    have "unaborted (adm s) \<noteq> Some b"
    proof
      assume "unaborted (adm s) = Some b"
      then have "pending (adm s) = Some b" by (rule unaborted_pending)
      then have "curr_gh (shared s) \<noteq> b" using i unfolding good_def by blast
      then show False using cur by simp
    qed
    moreover have "if unaborted (adm s) = Some b then curr_gh (shared s) = a
                   else aborted a (calls (shared s))"
      using i assms(2) unfolding good_def by blast
    ultimately show ?thesis by simp
  qed
qed

text \<open>
  C2, amended. In every state the two threads can reach:

  \<^item> whenever the execution thread is in its body for a goal, that goal is the one in the
    single slot \<open>curr_gh_\<close>, the execution thread holds the lock, and the admission thread is
    at none of the statements it runs under the lock: the slot is not written, and no other
    goal is taken up, until the body has released the lock;

  \<^item> if \<open>try_execute\<close> for a goal \<open>b\<close> stands at its \<open>try_lock\<close> with \<open>running_\<close> set and
    the lock held (as it is, by the first part, while a goal \<open>a\<close> is in execution, and then
    \<open>curr_gh_\<close> is \<open>a\<close>), then the \<open>try_lock\<close> fails, \<open>try_execute\<close> goes on to set the
    interrupt flag, and whatever the two threads do afterwards: in every state in which the
    execution thread is in its body for \<open>b\<close>, and before every \<open>setAccepted\<close> on \<open>b\<close> (the
    first call of that body), \<open>setAborted\<close> has been called with the message ``Received
    another trajectory'' on the goal that was in \<open>curr_gh_\<close> at the \<open>try_lock\<close>.

  The abort is a call on that goal's handle; it need not be the first result reported on it.
\<close>

theorem preemption_order:
  assumes "reachable to_string s"
  shows "(\<forall>g. executing_goal s = Some g \<longrightarrow>
             curr_gh (shared s) = g \<and> owner s = Some Execution \<and> \<not> adm_locked (adm s))
       \<and> (\<forall>b res s1 as s'.
             adm s = A_try b res \<longrightarrow> running (shared s) \<longrightarrow> owner s \<noteq> None \<longrightarrow>
             fire to_string Adm s = Some s1 \<longrightarrow> run to_string as s1 = Some s' \<longrightarrow>
               adm s1 = A_flag b res
               \<and> (executing_goal s' = Some b \<longrightarrow>
                    (\<exists>r. setAborted (curr_gh (shared s)) r \<in> set (calls (shared s'))
                         \<and> error_string r = ''Received another trajectory''))
               \<and> (\<forall>pre post. calls (shared s') = pre @ setAccepted b # post \<longrightarrow>
                    (\<exists>r. setAborted (curr_gh (shared s)) r \<in> set pre
                         \<and> error_string r = ''Received another trajectory'')))"
proof -
  have i: "good (owner s) (adm s) (exe s) (curr_gh (shared s)) (calls (shared s)) (submitted s) (refused s)"
    using reachable_inv [OF assms] by (simp add: invariant_def)
  have first: "\<forall>g. executing_goal s = Some g \<longrightarrow>
             curr_gh (shared s) = g \<and> owner s = Some Execution \<and> \<not> adm_locked (adm s)"
  proof (intro allI impI)
    fix g
    assume e: "executing_goal s = Some g"
    then have "exe_locked (exe s)" using executing_locked by (simp add: executing_goal_def)
    then have "owner s = Some Execution" using i unfolding good_def by simp
    moreover have "curr_gh (shared s) = g" using i e unfolding good_def executing_goal_def by simp
    moreover have "\<not> adm_locked (adm s)" using i \<open>owner s = Some Execution\<close> unfolding good_def by auto
    ultimately show "curr_gh (shared s) = g \<and> owner s = Some Execution \<and> \<not> adm_locked (adm s)"
      by simp
  qed
  have second: "adm s1 = A_flag b res
               \<and> (executing_goal s' = Some b \<longrightarrow>
                    (\<exists>r. setAborted (curr_gh (shared s)) r \<in> set (calls (shared s'))
                         \<and> error_string r = ''Received another trajectory''))
               \<and> (\<forall>pre post. calls (shared s') = pre @ setAccepted b # post \<longrightarrow>
                    (\<exists>r. setAborted (curr_gh (shared s)) r \<in> set pre
                         \<and> error_string r = ''Received another trajectory''))"
    if t: "adm s = A_try b res" and r: "running (shared s)" and o: "owner s \<noteq> None"
      and f: "fire to_string Adm s = Some s1" and c: "run to_string as s1 = Some s'"
    for b res s1 as s'
  proof -
    have "adm_step s = Some s1"
      using f by (simp add: fire_def split: if_splits)
    then have s1: "s1 = s\<lparr>adm := A_flag b res, refused := refused s @ [(b, curr_gh (shared s))]\<rparr>"
      using t r o by (simp add: adm_step_def)
    have "reachable to_string s1"
      using assms f by (rule reachable.step)
    then have reach: "reachable to_string s'"
      using c by (rule run_reachable)
    have "(b, curr_gh (shared s)) \<in> set (refused s1)"
      unfolding s1 by simp
    then have pair: "(b, curr_gh (shared s)) \<in> set (refused s')"
      using run_refused [OF c] by blast
    have "ordered (curr_gh (shared s)) b (calls (shared s'))"
      using reach pair by (rule refused_ordered(1))
    moreover have "executing_goal s' = Some b \<Longrightarrow> aborted (curr_gh (shared s)) (calls (shared s'))"
      using reach pair by (rule refused_ordered(2))
    moreover have "adm s1 = A_flag b res"
      unfolding s1 by simp
    ultimately show ?thesis
      unfolding ordered_def aborted_def by blast
  qed
  show ?thesis using first second by blast
qed

text \<open>
  In the first example \<open>rotated_goal\<close> stands at its \<open>try_lock\<close> while \<open>move_goal\<close> is in
  execution; the body for \<open>move_goal\<close> sees the interrupt flag and reports nothing, and the
  abort of the preemption is the only result reported on \<open>move_goal\<close>.
\<close>

lemma preempt_arrival:
  "observe (run no_text (arrival_schedule interrupted_env) (boot idle_server))
   = Some (A_try rotated_goal \<lparr>error_code = INVALID_GOAL, error_string = []\<rparr>,
           Some move_goal, Some Execution, [setAccepted move_goal])"
  by code_simp

lemma preempt_arrival_running:
  "map_option (\<lambda>s. running (shared s)) (run no_text (arrival_schedule interrupted_env) (boot idle_server))
   = Some True"
  by code_simp

lemma preempt_outcome:
  "observe (Option.bind (run no_text (arrival_schedule interrupted_env) (boot idle_server))
             (\<lambda>s. Option.bind (fire no_text Adm s) (run no_text takeover_schedule)))
   = Some (A_idle, Some rotated_goal, Some Execution,
           [setAccepted move_goal,
            setAborted move_goal
              \<lparr>error_code = INVALID_GOAL, error_string = ''Received another trajectory''\<rparr>,
            setAccepted rotated_goal])"
  by code_simp

theorem preemption_order_witness:
  "\<exists>s s1 s'.
      run no_text (arrival_schedule interrupted_env) (boot idle_server) = Some s
      \<and> adm s = A_try rotated_goal \<lparr>error_code = INVALID_GOAL, error_string = []\<rparr>
      \<and> running (shared s)
      \<and> executing_goal s = Some move_goal
      \<and> curr_gh (shared s) = move_goal \<and> owner s = Some Execution \<and> \<not> adm_locked (adm s)
      \<and> fire no_text Adm s = Some s1
      \<and> adm s1 = A_flag rotated_goal \<lparr>error_code = INVALID_GOAL, error_string = []\<rparr>
      \<and> run no_text takeover_schedule s1 = Some s'
      \<and> executing_goal s' = Some rotated_goal
      \<and> calls (shared s') =
          [setAccepted move_goal,
           setAborted move_goal
             \<lparr>error_code = INVALID_GOAL, error_string = ''Received another trajectory''\<rparr>,
           setAccepted rotated_goal]
      \<and> (\<exists>r. setAborted move_goal r \<in> set (calls (shared s'))
               \<and> error_string r = ''Received another trajectory'')
      \<and> (\<exists>r. setAborted move_goal r
                 \<in> set [setAccepted move_goal,
                         setAborted move_goal
                           \<lparr>error_code = INVALID_GOAL,
                            error_string = ''Received another trajectory''\<rparr>]
               \<and> error_string r = ''Received another trajectory'')"
proof -
  let ?res = "\<lparr>error_code = INVALID_GOAL, error_string = []\<rparr>"
  let ?abort = "setAborted move_goal
      \<lparr>error_code = INVALID_GOAL, error_string = ''Received another trajectory''\<rparr>"
  obtain s where r: "run no_text (arrival_schedule interrupted_env) (boot idle_server) = Some s"
    and a: "adm s = A_try rotated_goal ?res"
    and ex: "executing_goal s = Some move_goal"
    and ow: "owner s = Some Execution"
    using preempt_arrival by (auto simp: observe_def)
  have run: "running (shared s)"
    using preempt_arrival_running r by simp
  obtain s1 s' where f: "fire no_text Adm s = Some s1"
    and r': "run no_text takeover_schedule s1 = Some s'"
    and ex': "executing_goal s' = Some rotated_goal"
    and cs: "calls (shared s') = [setAccepted move_goal, ?abort, setAccepted rotated_goal]"
    using preempt_outcome r by (auto simp: observe_def bind_eq_Some_conv)
  have "initial (boot idle_server)"
    by (simp add: initial_def boot_def idle_server_def)
  then have reach: "reachable no_text s"
    using run_reachable [OF reachable.start r] by simp
  note t = preemption_order [OF reach]
  have first: "curr_gh (shared s) = move_goal \<and> owner s = Some Execution \<and> \<not> adm_locked (adm s)"
    using t ex by blast
  have o: "owner s \<noteq> None"
    using ow by simp
  have split: "calls (shared s') = [setAccepted move_goal, ?abort] @ setAccepted rotated_goal # []"
    using cs by simp
  have second: "adm s1 = A_flag rotated_goal ?res
      \<and> (\<exists>r. setAborted (curr_gh (shared s)) r \<in> set (calls (shared s'))
               \<and> error_string r = ''Received another trajectory'')
      \<and> (\<exists>r. setAborted (curr_gh (shared s)) r \<in> set [setAccepted move_goal, ?abort]
               \<and> error_string r = ''Received another trajectory'')"
    using t a run o f r' ex' split by blast
  show ?thesis
    using r a run ex first f r' ex' cs second by (intro exI [of _ s] exI [of _ s1] exI [of _ s']) simp
qed

text \<open>
  C2, as the claim states it, fails. \<open>move_goal\<close> is in execution, its \<open>setAccepted\<close> made,
  when \<open>rotated_goal\<close> is submitted and stands at its \<open>try_lock\<close>, which fails. Before the
  admission thread reaches \<open>curr_gh_.setAborted\<close>, the polling loop of the execution thread
  finds the arm at the final waypoint and at rest and calls \<open>setSucceeded\<close> on \<open>move_goal\<close>.
  The result reported on \<open>move_goal\<close> before \<open>rotated_goal\<close> is taken up is success; the
  abort of the preemption is a second call on a handle that already has its result.
\<close>

theorem preempted_goal_succeeds_first:
  "observe (run no_text (arrival_schedule reached_env) (boot idle_server))
   = Some (A_try rotated_goal \<lparr>error_code = INVALID_GOAL, error_string = []\<rparr>,
           Some move_goal, Some Execution, [setAccepted move_goal])
   \<and> observe (run no_text (arrival_schedule reached_env @ race_schedule) (boot idle_server))
   = Some (A_idle, Some rotated_goal, Some Execution,
           [setAccepted move_goal,
            setSucceeded move_goal \<lparr>error_code = SUCCESSFUL, error_string = []\<rparr>,
            setAborted move_goal
              \<lparr>error_code = INVALID_GOAL, error_string = ''Received another trajectory''\<rparr>,
            setAccepted rotated_goal])"
  by code_simp

end
